theory Spec2Isabelle
  imports Main "HOL-Library.AList"
begin

unbundle bit_operations_syntax

section \<open>Data model of \<^verbatim>\<open>lab1/hids.py\<close>\<close>

text \<open>
  The database is a Python dictionary from path strings to dictionaries of properties
  (\<^verbatim>\<open>type\<close>, \<^verbatim>\<open>uid\<close>, \<^verbatim>\<open>gid\<close>, \<^verbatim>\<open>mode\<close>, \<^verbatim>\<open>size\<close>, \<^verbatim>\<open>hash\<close>). A Python dictionary keeps
  insertion order and has unique keys; it is modelled as an association list:
  \<^item> \<^verbatim>\<open>k in d\<close> is \<open>map_of d k \<noteq> None\<close>,
  \<^item> \<^verbatim>\<open>d[k]\<close> is \<open>getitem d k\<close> (KeyError when the key is absent),
  \<^item> \<^verbatim>\<open>d[k] = v\<close> is \<open>AList.update k v d\<close> (in place when present, appended otherwise),
  \<^item> \<^verbatim>\<open>del d[k]\<close> is \<open>AList.delete k d\<close>,
  \<^item> \<^verbatim>\<open>d.update(e)\<close> is \<open>dict_update d e\<close>.
  A property value is a Python int or a Python str.
\<close>

datatype val = IntV int | StrV string

type_synonym entry = "(string \<times> val) list"
type_synonym db = "(string \<times> entry) list"

datatype error = AssertionError | KeyError string | TypeError | IOError

definition contains :: "('k \<times> 'v) list \<Rightarrow> 'k \<Rightarrow> bool" where
  "contains d k = (map_of d k \<noteq> None)"

definition getitem :: "(string \<times> 'v) list \<Rightarrow> string \<Rightarrow> error + 'v" where
  "getitem d k = (case map_of d k of None \<Rightarrow> Inl (KeyError k) | Some v \<Rightarrow> Inr v)"

definition dict_update :: "('k \<times> 'v) list \<Rightarrow> ('k \<times> 'v) list \<Rightarrow> ('k \<times> 'v) list" where
  "dict_update d e = fold (\<lambda>(k, v). AList.update k v) e d"

subsection \<open>The file system the operations read\<close>

text \<open>
  What \<^verbatim>\<open>os.path.isfile\<close>, \<^verbatim>\<open>os.path.isdir\<close>, \<^verbatim>\<open>os.stat\<close>, \<^verbatim>\<open>open\<close> and \<^verbatim>\<open>read\<close> observe of a
  path. No operation of the program writes to the file system, so it is a parameter.
  \<open>open_fails\<close> makes \<^verbatim>\<open>open(fpath, 'rb')\<close> raise; \<open>read_fails = Some k\<close> makes the
  \<open>k\<close>-th call of \<^verbatim>\<open>f.read\<close> (counted from 0) raise.
\<close>

datatype kind = RegularFile | Directory | Special

type_synonym bytes = "char list"

record node =
  st_kind :: kind
  st_uid :: int
  st_gid :: int
  st_mode :: int
  st_size :: int
  content :: bytes
  open_fails :: bool
  read_fails :: "nat option"

type_synonym fs = "string \<Rightarrow> node option"

definition isfile :: "fs \<Rightarrow> string \<Rightarrow> bool" where
  "isfile fs p = (case fs p of None \<Rightarrow> False | Some nd \<Rightarrow> st_kind nd = RegularFile)"

definition isdir :: "fs \<Rightarrow> string \<Rightarrow> bool" where
  "isdir fs p = (case fs p of None \<Rightarrow> False | Some nd \<Rightarrow> st_kind nd = Directory)"

subsection \<open>\<^verbatim>\<open>stat.S_IMODE\<close> and \<^verbatim>\<open>oct\<close>\<close>

text \<open>\<^verbatim>\<open>S_IMODE(mode)\<close> is \<^verbatim>\<open>mode & 0o7777\<close>; \<^verbatim>\<open>0o7777\<close> is 4095.\<close>

definition S_IMODE :: "int \<Rightarrow> int" where
  "S_IMODE mode = mode AND 4095"

definition octdigit :: "nat \<Rightarrow> char" where
  "octdigit d = ''01234567'' ! d"

function octdigits :: "nat \<Rightarrow> string" where
  "octdigits n = (if n < 8 then [octdigit n] else octdigits (n div 8) @ [octdigit (n mod 8)])"
  by pat_completeness auto
termination
  by (relation "measure (\<lambda>n. n)") auto

declare octdigits.simps [simp del]

text \<open>Python's \<^verbatim>\<open>oct\<close>: the prefix \<^verbatim>\<open>0o\<close> (after a sign) and the octal digits.\<close>

definition oct :: "int \<Rightarrow> string" where
  "oct n = (if n < 0 then ''-0o'' @ octdigits (nat (- n)) else ''0o'' @ octdigits (nat n))"

text \<open>Reading octal digits back, to say which number a digit string denotes.\<close>

definition octdigit_val :: "char \<Rightarrow> nat" where
  "octdigit_val c = of_char c - 48"

definition octal_value :: "string \<Rightarrow> nat" where
  "octal_value s = fold (\<lambda>c acc. 8 * acc + octdigit_val c) s 0"

subsection \<open>The state the operations run in\<close>

text \<open>
  Every \<^verbatim>\<open>print\<close> of the program appends one line to \<open>out\<close>; a line is kept as the
  print statement's text constructor with the values it formats.
\<close>

datatype line =
    DbContains nat nat
  | PathContains nat nat
  | FileAlready string
  | DirAlready string
  | UseCheckOrUpdate
  | AddSuccess
  | ErrNotInDb string
  | UseAddFirst
  | ErrHashExists string
  | UseUpdateReset
  | AddedHashes nat
  | AddedNew nat
  | UpdatedEntries nat
  | RemovedHashes nat
  | RemovedEntries nat
  | WarnMissing string
  | WarnNewFile string
  | WarnNewDir string
  | WarnMismatch string
  | TypeChanged val string
  | FieldChanged string val val
  | WarnHashChanged string
  | HashChangedFromTo val string
  | SummaryHeader
  | SumMissing nat
  | SumNew nat
  | SumMismatch nat
  | SumHashChanged nat
  | NoIssues

text \<open>
  \<open>store\<close> is the dictionary \<^verbatim>\<open>data\<close> that every action receives by reference,
  \<open>out\<close> the lines printed so far, \<open>open_files\<close> the paths of the file objects that
  are open (one occurrence per handle).
\<close>

record world =
  store :: db
  out :: "line list"
  open_files :: "string list"

definition print :: "line \<Rightarrow> world \<Rightarrow> world" where
  "print l w = w\<lparr>out := out w @ [l]\<rparr>"

text \<open>A loop either returns from the enclosing function or falls through with its locals.\<close>

datatype 'a flow = Return bool | Next 'a

section \<open>Entry computation: \<^verbatim>\<open>dirdata\<close> and \<^verbatim>\<open>filedata\<close>\<close>

definition dirdata :: "fs \<Rightarrow> string \<Rightarrow> error + entry" where
  "dirdata fs dpath =
     (if \<not> isdir fs dpath then Inl AssertionError
      else case fs dpath of
        None \<Rightarrow> Inl IOError
      | Some stats \<Rightarrow>
          Inr (AList.update ''mode'' (StrV (oct (S_IMODE (st_mode stats))))
              (AList.update ''gid'' (IntV (st_gid stats))
              (AList.update ''uid'' (IntV (st_uid stats))
              (AList.update ''type'' (StrV ''d'') [])))))"

definition filedata :: "fs \<Rightarrow> string \<Rightarrow> error + entry" where
  "filedata fs fpath =
     (if \<not> isfile fs fpath then Inl AssertionError
      else case fs fpath of
        None \<Rightarrow> Inl IOError
      | Some stats \<Rightarrow>
          Inr (AList.update ''size'' (IntV (st_size stats))
              (AList.update ''mode'' (StrV (oct (S_IMODE (st_mode stats))))
              (AList.update ''gid'' (IntV (st_gid stats))
              (AList.update ''uid'' (IntV (st_uid stats))
              (AList.update ''type'' (StrV ''f'') []))))))"

section \<open>The helper \<^verbatim>\<open>sha256file\<close>\<close>

definition BUFSIZE :: nat where
  "BUFSIZE = 16384"

text \<open>
  The \<open>k\<close>-th \<^verbatim>\<open>f.read(BUFSIZE)\<close> on a handle with the bytes \<open>rest\<close> still unread: the
  block read and the bytes left, or the I/O error.
\<close>

definition fread :: "node \<Rightarrow> nat \<Rightarrow> bytes \<Rightarrow> error + bytes \<times> bytes" where
  "fread nd k rest =
     (if read_fails nd = Some k then Inl IOError
      else Inr (take BUFSIZE rest, drop BUFSIZE rest))"

text \<open>
  The \<^verbatim>\<open>while len(buffer) > 0\<close> loop. \<^verbatim>\<open>hashlib\<close>'s digest object is the sequence of
  bytes fed to \<^verbatim>\<open>update\<close> so far; the digest function itself is a parameter of
  \<open>sha256file\<close>.
\<close>

function sha256_loop :: "node \<Rightarrow> nat \<Rightarrow> bytes \<Rightarrow> bytes \<Rightarrow> bytes \<Rightarrow> error + bytes" where
  "sha256_loop nd k rest buffer s256 =
     (if length buffer > 0 then
        (case fread nd k rest of
           Inl e \<Rightarrow> Inl e
         | Inr (buffer', rest') \<Rightarrow> sha256_loop nd (k + 1) rest' buffer' (s256 @ buffer))
      else Inr s256)"
  by pat_completeness auto
termination
  by (relation "measure (\<lambda>(nd, k, rest, buffer, s256). length rest + length buffer)")
     (auto simp: fread_def min_def neq_Nil_conv split: if_splits)

declare sha256_loop.simps [simp del]

text \<open>
  \<^verbatim>\<open>sha256file\<close>: the assertion, \<^verbatim>\<open>open\<close>, the first \<^verbatim>\<open>read\<close>, the loop, \<^verbatim>\<open>f.close()\<close>
  and \<^verbatim>\<open>hexdigest\<close>. An exception leaves the function at the statement that raises
  it, so the statements after it (among them \<^verbatim>\<open>f.close()\<close>) do not run.
\<close>

definition sha256file :: "(bytes \<Rightarrow> string) \<Rightarrow> fs \<Rightarrow> string \<Rightarrow> world \<Rightarrow> (error + string) \<times> world" where
  "sha256file hexdigest fs fpath w =
     (if \<not> isfile fs fpath then (Inl AssertionError, w)
      else case fs fpath of
        None \<Rightarrow> (Inl IOError, w)
      | Some nd \<Rightarrow>
          if open_fails nd then (Inl IOError, w)
          else
            let w1 = w\<lparr>open_files := fpath # open_files w\<rparr> in
            (case fread nd 0 (content nd) of
               Inl e \<Rightarrow> (Inl e, w1)
             | Inr (buffer, rest) \<Rightarrow>
                 (case sha256_loop nd 1 rest buffer [] of
                    Inl e \<Rightarrow> (Inl e, w1)
                  | Inr s256 \<Rightarrow>
                      (Inr (hexdigest s256), w1\<lparr>open_files := remove1 fpath (open_files w1)\<rparr>))))"

section \<open>Action \<^verbatim>\<open>count\<close>\<close>

text \<open>The loop \<^verbatim>\<open>for entry in data\<close> of \<^verbatim>\<open>count\<close>, over the keys of \<open>data\<close>.\<close>

fun count_entries :: "db \<Rightarrow> string list \<Rightarrow> nat \<Rightarrow> nat \<Rightarrow> error + nat \<times> nat" where
  "count_entries data [] f d = Inr (f, d)"
| "count_entries data (entry # rest) f d =
     (case getitem data entry of
        Inl e \<Rightarrow> Inl e
      | Inr props \<Rightarrow>
          (case getitem props ''type'' of
             Inl e \<Rightarrow> Inl e
           | Inr t \<Rightarrow>
               if t = StrV ''f'' then count_entries data rest (f + 1) d
               else if t = StrV ''d'' then count_entries data rest f (d + 1)
               else count_entries data rest f d))"

text \<open>
  \<^verbatim>\<open>count(data, files, directories)\<close>; each argument may be \<^verbatim>\<open>None\<close>. A list is true when
  it is not \<^verbatim>\<open>None\<close> and not empty; \<^verbatim>\<open>len(None)\<close> raises TypeError.
\<close>

definition truthy :: "'a list option \<Rightarrow> bool" where
  "truthy xs = (case xs of None \<Rightarrow> False | Some l \<Rightarrow> l \<noteq> [])"

definition count :: "db option \<Rightarrow> string list option \<Rightarrow> string list option \<Rightarrow> world \<Rightarrow> (error + bool) \<times> world" where
  "count data files directories w =
     (case (case data of
              None \<Rightarrow> Inr w
            | Some dt \<Rightarrow>
                (case count_entries dt (map fst dt) 0 0 of
                   Inl e \<Rightarrow> Inl e
                 | Inr (f, d) \<Rightarrow> Inr (print (DbContains f d) w))) of
        Inl e \<Rightarrow> (Inl e, w)
      | Inr w1 \<Rightarrow>
          if truthy files \<or> truthy directories then
            (case (files, directories) of
               (Some fl, Some dl) \<Rightarrow> (Inr True, print (PathContains (length fl) (length dl)) w1)
             | _ \<Rightarrow> (Inl TypeError, w1))
          else (Inr True, w1))"

section \<open>Action \<^verbatim>\<open>add\<close>\<close>

fun add_files :: "fs \<Rightarrow> string list \<Rightarrow> world \<Rightarrow> (error + unit flow) \<times> world" where
  "add_files fs [] w = (Inr (Next ()), w)"
| "add_files fs (fpath # rest) w =
     (if \<not> contains (store w) fpath then
        (case filedata fs fpath of
           Inl e \<Rightarrow> (Inl e, w)
         | Inr props \<Rightarrow> add_files fs rest (w\<lparr>store := AList.update fpath props (store w)\<rparr>))
      else (Inr (Return False), print UseCheckOrUpdate (print (FileAlready fpath) w)))"

fun add_dirs :: "fs \<Rightarrow> string list \<Rightarrow> world \<Rightarrow> (error + unit flow) \<times> world" where
  "add_dirs fs [] w = (Inr (Next ()), w)"
| "add_dirs fs (dpath # rest) w =
     (if \<not> contains (store w) dpath then
        (case dirdata fs dpath of
           Inl e \<Rightarrow> (Inl e, w)
         | Inr props \<Rightarrow> add_dirs fs rest (w\<lparr>store := AList.update dpath props (store w)\<rparr>))
      else (Inr (Return False), print UseCheckOrUpdate (print (DirAlready dpath) w)))"

definition add :: "fs \<Rightarrow> string list \<Rightarrow> string list \<Rightarrow> world \<Rightarrow> (error + bool) \<times> world" where
  "add fs files directories w =
     (case add_files fs files w of
        (Inl e, w1) \<Rightarrow> (Inl e, w1)
      | (Inr (Return r), w1) \<Rightarrow> (Inr r, w1)
      | (Inr (Next u), w1) \<Rightarrow>
          (case add_dirs fs directories w1 of
             (Inl e, w2) \<Rightarrow> (Inl e, w2)
           | (Inr (Return r), w2) \<Rightarrow> (Inr r, w2)
           | (Inr (Next u), w2) \<Rightarrow>
               (let w3 = print AddSuccess w2 in
                case count (Some (store w3)) None None w3 of
                  (Inl e, w4) \<Rightarrow> (Inl e, w4)
                | (Inr r, w4) \<Rightarrow> (Inr True, w4))))"

section \<open>Action \<^verbatim>\<open>hash\<close>: \<^verbatim>\<open>cksum\<close>\<close>

text \<open>
  \<^verbatim>\<open>data[fpath]['hash'] = sha256file(fpath)\<close> evaluates the right-hand side first and
  then stores into the dictionary that is the value of \<^verbatim>\<open>fpath\<close>.
\<close>

fun cksum_files :: "(bytes \<Rightarrow> string) \<Rightarrow> fs \<Rightarrow> string list \<Rightarrow> nat \<Rightarrow> world \<Rightarrow> (error + nat flow) \<times> world" where
  "cksum_files hexdigest fs [] hash_count w = (Inr (Next hash_count), w)"
| "cksum_files hexdigest fs (fpath # rest) hash_count w =
     (if \<not> contains (store w) fpath then
        (Inr (Return False), print UseAddFirst (print (ErrNotInDb fpath) w))
      else case getitem (store w) fpath of
        Inl e \<Rightarrow> (Inl e, w)
      | Inr props \<Rightarrow>
          if contains props ''hash'' then
            (Inr (Return False), print UseUpdateReset (print (ErrHashExists fpath) w))
          else
            (case sha256file hexdigest fs fpath w of
               (Inl e, w1) \<Rightarrow> (Inl e, w1)
             | (Inr h, w1) \<Rightarrow>
                 cksum_files hexdigest fs rest (hash_count + 1)
                   (w1\<lparr>store := AList.map_entry fpath (AList.update ''hash'' (StrV h)) (store w1)\<rparr>)))"

definition cksum :: "(bytes \<Rightarrow> string) \<Rightarrow> fs \<Rightarrow> string list \<Rightarrow> string list \<Rightarrow> world \<Rightarrow> (error + bool) \<times> world" where
  "cksum hexdigest fs files directories w =
     (case cksum_files hexdigest fs files 0 w of
        (Inl e, w1) \<Rightarrow> (Inl e, w1)
      | (Inr (Return r), w1) \<Rightarrow> (Inr r, w1)
      | (Inr (Next hash_count), w1) \<Rightarrow> (Inr True, print (AddedHashes hash_count) w1))"

section \<open>Action \<^verbatim>\<open>update\<close>\<close>

record update_counts =
  new_count :: nat
  changed_count :: nat
  removed_hash_count :: nat
  removed_entry_count :: nat

text \<open>The loop \<^verbatim>\<open>for entry in to_remove\<close>.\<close>

fun remove_entries :: "string list \<Rightarrow> db \<Rightarrow> nat \<Rightarrow> db \<times> nat" where
  "remove_entries [] data n = (data, n)"
| "remove_entries (entry # rest) data n = remove_entries rest (AList.delete entry data) (n + 1)"

text \<open>
  The loop \<^verbatim>\<open>for key in new_data\<close> that sets \<^verbatim>\<open>changed\<close>: \<open>old\<close> is the recorded
  dictionary of the path.
\<close>

definition detect_changed :: "entry \<Rightarrow> entry \<Rightarrow> bool" where
  "detect_changed old new_data =
     fold (\<lambda>key changed.
             if \<not> contains old key \<or> map_of old key \<noteq> map_of new_data key then True else changed)
          (map fst new_data) False"

text \<open>One iteration of the loop \<^verbatim>\<open>for fpath in files\<close>.\<close>

definition update_file :: "fs \<Rightarrow> string \<Rightarrow> update_counts \<Rightarrow> world \<Rightarrow> (error + update_counts) \<times> world" where
  "update_file fs fpath c w =
     (if \<not> contains (store w) fpath then
        (case filedata fs fpath of
           Inl e \<Rightarrow> (Inl e, w)
         | Inr props \<Rightarrow>
             (Inr (c\<lparr>new_count := new_count c + 1\<rparr>),
              w\<lparr>store := AList.update fpath props (store w)\<rparr>))
      else
        (case filedata fs fpath of
           Inl e \<Rightarrow> (Inl e, w)
         | Inr new_data \<Rightarrow>
             (case getitem (store w) fpath of
                Inl e \<Rightarrow> (Inl e, w)
              | Inr old \<Rightarrow>
                  (let changed = detect_changed old new_data;
                       merged = dict_update old new_data;
                       has_hash = contains merged ''hash'';
                       props = (if has_hash then AList.delete ''hash'' merged else merged);
                       c1 = (if has_hash then c\<lparr>removed_hash_count := removed_hash_count c + 1\<rparr> else c);
                       c2 = (if changed then c1\<lparr>changed_count := changed_count c1 + 1\<rparr> else c1)
                   in (Inr c2, w\<lparr>store := AList.update fpath props (store w)\<rparr>)))))"

text \<open>One iteration of the loop \<^verbatim>\<open>for dpath in directories\<close>.\<close>

definition update_dir :: "fs \<Rightarrow> string \<Rightarrow> update_counts \<Rightarrow> world \<Rightarrow> (error + update_counts) \<times> world" where
  "update_dir fs dpath c w =
     (if \<not> contains (store w) dpath then
        (case dirdata fs dpath of
           Inl e \<Rightarrow> (Inl e, w)
         | Inr props \<Rightarrow>
             (Inr (c\<lparr>new_count := new_count c + 1\<rparr>),
              w\<lparr>store := AList.update dpath props (store w)\<rparr>))
      else
        (case dirdata fs dpath of
           Inl e \<Rightarrow> (Inl e, w)
         | Inr new_data \<Rightarrow>
             (case getitem (store w) dpath of
                Inl e \<Rightarrow> (Inl e, w)
              | Inr old \<Rightarrow>
                  (let changed = detect_changed old new_data;
                       merged = dict_update old new_data;
                       c1 = (if changed then c\<lparr>changed_count := changed_count c + 1\<rparr> else c)
                   in (Inr c1, w\<lparr>store := AList.update dpath merged (store w)\<rparr>)))))"

fun update_files :: "fs \<Rightarrow> string list \<Rightarrow> update_counts \<Rightarrow> world \<Rightarrow> (error + update_counts) \<times> world" where
  "update_files fs [] c w = (Inr c, w)"
| "update_files fs (fpath # rest) c w =
     (case update_file fs fpath c w of
        (Inl e, w1) \<Rightarrow> (Inl e, w1)
      | (Inr c1, w1) \<Rightarrow> update_files fs rest c1 w1)"

fun update_dirs :: "fs \<Rightarrow> string list \<Rightarrow> update_counts \<Rightarrow> world \<Rightarrow> (error + update_counts) \<times> world" where
  "update_dirs fs [] c w = (Inr c, w)"
| "update_dirs fs (dpath # rest) c w =
     (case update_dir fs dpath c w of
        (Inl e, w1) \<Rightarrow> (Inl e, w1)
      | (Inr c1, w1) \<Rightarrow> update_dirs fs rest c1 w1)"

text \<open>The summary printed at the end of \<^verbatim>\<open>update\<close>.\<close>

definition update_summary :: "update_counts \<Rightarrow> line list" where
  "update_summary c =
     [AddedNew (new_count c), UpdatedEntries (changed_count c),
      RemovedHashes (removed_hash_count c), RemovedEntries (removed_entry_count c)]"

text \<open>
  \<open>update_run\<close> is \<^verbatim>\<open>update\<close> up to its summary, with the four counters it has then;
  \<open>update\<close> prints them and returns \<^verbatim>\<open>True\<close>.
\<close>

definition update_run :: "fs \<Rightarrow> string list \<Rightarrow> string list \<Rightarrow> world \<Rightarrow> (error + update_counts) \<times> world" where
  "update_run fs files directories w =
     (let to_remove = filter (\<lambda>entry. entry \<notin> set files \<and> entry \<notin> set directories)
                        (map fst (store w));
          (data1, removed) = remove_entries to_remove (store w) 0;
          c0 = \<lparr>new_count = 0, changed_count = 0, removed_hash_count = 0,
                removed_entry_count = removed\<rparr>
      in case update_files fs files c0 (w\<lparr>store := data1\<rparr>) of
           (Inl e, w2) \<Rightarrow> (Inl e, w2)
         | (Inr c1, w2) \<Rightarrow> update_dirs fs directories c1 w2)"

definition update :: "fs \<Rightarrow> string list \<Rightarrow> string list \<Rightarrow> world \<Rightarrow> (error + bool) \<times> world" where
  "update fs files directories w =
     (case update_run fs files directories w of
        (Inl e, w1) \<Rightarrow> (Inl e, w1)
      | (Inr c, w1) \<Rightarrow> (Inr True, fold print (update_summary c) w1))"

section \<open>Action \<^verbatim>\<open>verify\<close>\<close>

record verify_counts =
  missing_count :: nat
  found_new_count :: nat
  mismatch_count :: nat
  hash_changed_count :: nat

text \<open>The loop \<^verbatim>\<open>for entry in data\<close> that warns about missing entries.\<close>

fun verify_missing :: "string list \<Rightarrow> string list \<Rightarrow> string list \<Rightarrow> verify_counts \<Rightarrow> world \<Rightarrow> verify_counts \<times> world" where
  "verify_missing [] files directories c w = (c, w)"
| "verify_missing (entry # rest) files directories c w =
     (if entry \<notin> set files \<and> entry \<notin> set directories then
        verify_missing rest files directories (c\<lparr>missing_count := missing_count c + 1\<rparr>)
          (print (WarnMissing entry) w)
      else verify_missing rest files directories c w)"

text \<open>
  The loop \<^verbatim>\<open>for key in current\<close>, over the items of \<open>current\<close>; \<open>recorded\<close> is
  \<^verbatim>\<open>data[path]\<close>. The first differing key prints the warning and counts the path.
\<close>

fun compare_attrs :: "string \<Rightarrow> entry \<Rightarrow> entry \<Rightarrow> bool \<Rightarrow> verify_counts \<Rightarrow> world \<Rightarrow> bool \<times> verify_counts \<times> world" where
  "compare_attrs path recorded [] has_mismatch c w = (has_mismatch, c, w)"
| "compare_attrs path recorded ((key, cur) # rest) has_mismatch c w =
     (case map_of recorded key of
        None \<Rightarrow> compare_attrs path recorded rest has_mismatch c w
      | Some old \<Rightarrow>
          if cur \<noteq> old then
            (if \<not> has_mismatch then
               compare_attrs path recorded rest True (c\<lparr>mismatch_count := mismatch_count c + 1\<rparr>)
                 (print (FieldChanged key old cur) (print (WarnMismatch path) w))
             else
               compare_attrs path recorded rest has_mismatch c (print (FieldChanged key old cur) w))
          else compare_attrs path recorded rest has_mismatch c w)"

text \<open>One iteration of the loop \<^verbatim>\<open>for fpath in files\<close>.\<close>

definition verify_file :: "(bytes \<Rightarrow> string) \<Rightarrow> fs \<Rightarrow> string \<Rightarrow> verify_counts \<Rightarrow> world \<Rightarrow> (error + verify_counts) \<times> world" where
  "verify_file hexdigest fs fpath c w =
     (if \<not> contains (store w) fpath then
        (Inr (c\<lparr>found_new_count := found_new_count c + 1\<rparr>), print (WarnNewFile fpath) w)
      else case getitem (store w) fpath of
        Inl e \<Rightarrow> (Inl e, w)
      | Inr recorded \<Rightarrow>
          (case getitem recorded ''type'' of
             Inl e \<Rightarrow> (Inl e, w)
           | Inr t \<Rightarrow>
               if t \<noteq> StrV ''f'' then
                 (Inr (c\<lparr>mismatch_count := mismatch_count c + 1\<rparr>),
                  print (TypeChanged t ''f'') (print (WarnMismatch fpath) w))
               else
                 (case filedata fs fpath of
                    Inl e \<Rightarrow> (Inl e, w)
                  | Inr current \<Rightarrow>
                      (case compare_attrs fpath recorded current False c w of
                         (has_mismatch, c1, w1) \<Rightarrow>
                           (case map_of recorded ''hash'' of
                              None \<Rightarrow> (Inr c1, w1)
                            | Some old_hash \<Rightarrow>
                                (case sha256file hexdigest fs fpath w1 of
                                   (Inl e, w2) \<Rightarrow> (Inl e, w2)
                                 | (Inr current_hash, w2) \<Rightarrow>
                                     if StrV current_hash \<noteq> old_hash then
                                       (Inr (c1\<lparr>hash_changed_count := hash_changed_count c1 + 1\<rparr>),
                                        print (HashChangedFromTo old_hash current_hash)
                                          (print (WarnHashChanged fpath) w2))
                                     else (Inr c1, w2)))))))"

text \<open>One iteration of the loop \<^verbatim>\<open>for dpath in directories\<close>.\<close>

definition verify_dir :: "fs \<Rightarrow> string \<Rightarrow> verify_counts \<Rightarrow> world \<Rightarrow> (error + verify_counts) \<times> world" where
  "verify_dir fs dpath c w =
     (if \<not> contains (store w) dpath then
        (Inr (c\<lparr>found_new_count := found_new_count c + 1\<rparr>), print (WarnNewDir dpath) w)
      else case getitem (store w) dpath of
        Inl e \<Rightarrow> (Inl e, w)
      | Inr recorded \<Rightarrow>
          (case getitem recorded ''type'' of
             Inl e \<Rightarrow> (Inl e, w)
           | Inr t \<Rightarrow>
               if t \<noteq> StrV ''d'' then
                 (Inr (c\<lparr>mismatch_count := mismatch_count c + 1\<rparr>),
                  print (TypeChanged t ''d'') (print (WarnMismatch dpath) w))
               else
                 (case dirdata fs dpath of
                    Inl e \<Rightarrow> (Inl e, w)
                  | Inr current \<Rightarrow>
                      (case compare_attrs dpath recorded current False c w of
                         (has_mismatch, c1, w1) \<Rightarrow> (Inr c1, w1)))))"

fun verify_files :: "(bytes \<Rightarrow> string) \<Rightarrow> fs \<Rightarrow> string list \<Rightarrow> verify_counts \<Rightarrow> world \<Rightarrow> (error + verify_counts) \<times> world" where
  "verify_files hexdigest fs [] c w = (Inr c, w)"
| "verify_files hexdigest fs (fpath # rest) c w =
     (case verify_file hexdigest fs fpath c w of
        (Inl e, w1) \<Rightarrow> (Inl e, w1)
      | (Inr c1, w1) \<Rightarrow> verify_files hexdigest fs rest c1 w1)"

fun verify_dirs :: "fs \<Rightarrow> string list \<Rightarrow> verify_counts \<Rightarrow> world \<Rightarrow> (error + verify_counts) \<times> world" where
  "verify_dirs fs [] c w = (Inr c, w)"
| "verify_dirs fs (dpath # rest) c w =
     (case verify_dir fs dpath c w of
        (Inl e, w1) \<Rightarrow> (Inl e, w1)
      | (Inr c1, w1) \<Rightarrow> verify_dirs fs rest c1 w1)"

text \<open>The summary of \<^verbatim>\<open>verify\<close> and its return value.\<close>

definition verify_summary :: "verify_counts \<Rightarrow> world \<Rightarrow> bool \<times> world" where
  "verify_summary c w =
     (let total_issues = missing_count c + found_new_count c + mismatch_count c + hash_changed_count c in
      if total_issues > 0 then
        (let w1 = print SummaryHeader w;
             w2 = (if missing_count c > 0 then print (SumMissing (missing_count c)) w1 else w1);
             w3 = (if found_new_count c > 0 then print (SumNew (found_new_count c)) w2 else w2);
             w4 = (if mismatch_count c > 0 then print (SumMismatch (mismatch_count c)) w3 else w3);
             w5 = (if hash_changed_count c > 0 then print (SumHashChanged (hash_changed_count c)) w4 else w4)
         in (False, w5))
      else (True, print NoIssues w))"

definition verify :: "(bytes \<Rightarrow> string) \<Rightarrow> fs \<Rightarrow> string list \<Rightarrow> string list \<Rightarrow> world \<Rightarrow> (error + bool) \<times> world" where
  "verify hexdigest fs files directories w =
     (let c0 = \<lparr>missing_count = 0, found_new_count = 0, mismatch_count = 0, hash_changed_count = 0\<rparr>;
          (c1, w1) = verify_missing (map fst (store w)) files directories c0 w
      in case verify_files hexdigest fs files c1 w1 of
           (Inl e, w2) \<Rightarrow> (Inl e, w2)
         | (Inr c2, w2) \<Rightarrow>
             (case verify_dirs fs directories c2 w2 of
                (Inl e, w3) \<Rightarrow> (Inl e, w3)
              | (Inr c3, w3) \<Rightarrow>
                  (case verify_summary c3 w3 of (r, w4) \<Rightarrow> (Inr r, w4))))"

section \<open>Example inputs\<close>

text \<open>
  A stand-in for \<^verbatim>\<open>hashlib\<close>'s digest; a regular file with mode \<^verbatim>\<open>0o100644\<close> and content
  \<^verbatim>\<open>abc\<close>, a directory with mode \<^verbatim>\<open>0o40755\<close>, and a file of 20000 bytes whose second
  \<^verbatim>\<open>read\<close> fails; two file systems built from them.
\<close>

definition toy_hexdigest :: "bytes \<Rightarrow> string" where
  "toy_hexdigest bs = bs"

definition file_node :: node where
  "file_node = \<lparr>st_kind = RegularFile, st_uid = 1000, st_gid = 1000, st_mode = 33188,
     st_size = 3, content = ''abc'', open_fails = False, read_fails = None\<rparr>"

definition dir_node :: node where
  "dir_node = \<lparr>st_kind = Directory, st_uid = 1000, st_gid = 1000, st_mode = 16877,
     st_size = 4096, content = [], open_fails = False, read_fails = None\<rparr>"

definition bad_disk_node :: node where
  "bad_disk_node = file_node\<lparr>st_size := 20000, content := replicate 20000 (CHR ''a''), read_fails := Some 1\<rparr>"

definition motd_fs :: fs where
  "motd_fs = (\<lambda>p. if p = ''/etc/motd'' then Some file_node else None)"

definition etc_fs :: fs where
  "etc_fs = (\<lambda>p. if p = ''/etc'' then Some dir_node
                  else if p = ''/etc/motd'' \<or> p = ''/etc/passwd'' then Some file_node
                  else None)"

text \<open>
  States: the empty database; \<^verbatim>\<open>/etc/motd\<close> tracked without a hash, tracked with the hash of
  its content, and tracked with another owner, mode and hash; \<^verbatim>\<open>/srv/data\<close> tracked as a
  hashed file and as a directory.
\<close>

definition empty_world :: world where
  "empty_world = \<lparr>store = [], out = [], open_files = []\<rparr>"

definition unhashed_world :: world where
  "unhashed_world =
     \<lparr>store = [(''/etc/motd'', [(''type'', StrV ''f''), (''uid'', IntV 1000), (''gid'', IntV 1000),
                 (''mode'', StrV ''0o644''), (''size'', IntV 3)])],
      out = [], open_files = []\<rparr>"

definition hashed_world :: world where
  "hashed_world =
     \<lparr>store = [(''/etc/motd'', [(''type'', StrV ''f''), (''uid'', IntV 1000), (''gid'', IntV 1000),
                 (''mode'', StrV ''0o644''), (''size'', IntV 3), (''hash'', StrV ''abc'')])],
      out = [], open_files = []\<rparr>"

definition drifted_world :: world where
  "drifted_world =
     \<lparr>store = [(''/etc/motd'', [(''type'', StrV ''f''), (''uid'', IntV 0), (''gid'', IntV 1000),
                 (''mode'', StrV ''0o600''), (''size'', IntV 3), (''hash'', StrV ''xyz'')])],
      out = [], open_files = []\<rparr>"

definition tracked_file_world :: world where
  "tracked_file_world =
     \<lparr>store = [(''/srv/data'', [(''type'', StrV ''f''), (''uid'', IntV 1000), (''gid'', IntV 1000),
                 (''mode'', StrV ''0o644''), (''size'', IntV 3), (''hash'', StrV ''abc'')])],
      out = [], open_files = []\<rparr>"

definition tracked_dir_world :: world where
  "tracked_dir_world =
     \<lparr>store = [(''/srv/data'', [(''type'', StrV ''d''), (''uid'', IntV 1000), (''gid'', IntV 1000),
                 (''mode'', StrV ''0o755'')])],
      out = [], open_files = []\<rparr>"

section \<open>Notions used in the statements\<close>

text \<open>
  The invariant of the data model: no entry of type \<^verbatim>\<open>d\<close> has a \<^verbatim>\<open>hash\<close> or a \<^verbatim>\<open>size\<close> key.
\<close>

definition no_dir_hash_or_size :: "db \<Rightarrow> bool" where
  "no_dir_hash_or_size data =
     list_all (\<lambda>(path, props).
        if map_of props ''type'' = Some (StrV ''d'')
        then \<not> contains props ''hash'' \<and> \<not> contains props ''size'' else True) data"

text \<open>
  A path is hashed when it is a key whose entry has a \<^verbatim>\<open>hash\<close> key; it is tracked and not
  yet hashed when it is a key whose entry has none.
\<close>

definition has_hash :: "db \<Rightarrow> string \<Rightarrow> bool" where
  "has_hash data path =
     (case map_of data path of None \<Rightarrow> False | Some props \<Rightarrow> contains props ''hash'')"

definition tracked_unhashed :: "db \<Rightarrow> string \<Rightarrow> bool" where
  "tracked_unhashed data path =
     (case map_of data path of None \<Rightarrow> False | Some props \<Rightarrow> \<not> contains props ''hash'')"

text \<open>
  The entry \<^verbatim>\<open>add\<close> and \<^verbatim>\<open>update\<close> compute for a live path: \<^verbatim>\<open>filedata\<close> for a regular
  file, \<^verbatim>\<open>dirdata\<close> otherwise.
\<close>

definition fresh_entry :: "fs \<Rightarrow> string \<Rightarrow> entry option" where
  "fresh_entry fs path =
     (case (if isfile fs path then filedata fs path else dirdata fs path) of
        Inl e \<Rightarrow> None
      | Inr props \<Rightarrow> Some props)"

text \<open>
  A recorded entry agrees with a freshly computed one when it has every key of the fresh
  entry with the same value. A file path is in sync when its recorded entry agrees with
  \<^verbatim>\<open>filedata\<close> and has no hash; a directory path when its entry agrees with \<^verbatim>\<open>dirdata\<close>.
\<close>

definition agrees :: "entry \<Rightarrow> entry \<Rightarrow> bool" where
  "agrees recorded current = list_all (\<lambda>(key, v). map_of recorded key = Some v) current"

definition file_synced :: "fs \<Rightarrow> db \<Rightarrow> string \<Rightarrow> bool" where
  "file_synced fs data path =
     (case map_of data path of
        None \<Rightarrow> False
      | Some props \<Rightarrow>
          (case filedata fs path of
             Inl e \<Rightarrow> False
           | Inr current \<Rightarrow> agrees props current \<and> \<not> contains props ''hash''))"

definition dir_synced :: "fs \<Rightarrow> db \<Rightarrow> string \<Rightarrow> bool" where
  "dir_synced fs data path =
     (case map_of data path of
        None \<Rightarrow> False
      | Some props \<Rightarrow>
          (case dirdata fs path of
             Inl e \<Rightarrow> False
           | Inr current \<Rightarrow> agrees props current))"

text \<open>
  The attribute differences \<^verbatim>\<open>verify\<close> reports for one path: one line for every key of the
  current entry that the recorded entry has with another value. \<open>file_digest\<close> is what
  \<^verbatim>\<open>sha256file\<close> returns or raises for a path (it does not depend on the state), and
  \<open>hash_change\<close> the lines \<^verbatim>\<open>verify\<close> prints when the recorded hash differs from it.
\<close>

definition field_changes :: "entry \<Rightarrow> entry \<Rightarrow> line list" where
  "field_changes recorded current =
     List.map_filter (\<lambda>(key, cur).
        case map_of recorded key of
          None \<Rightarrow> None
        | Some old \<Rightarrow> if cur \<noteq> old then Some (FieldChanged key old cur) else None) current"

definition file_digest :: "(bytes \<Rightarrow> string) \<Rightarrow> fs \<Rightarrow> string \<Rightarrow> error + string" where
  "file_digest hexdigest fs fpath = fst (sha256file hexdigest fs fpath empty_world)"

definition hash_change :: "(bytes \<Rightarrow> string) \<Rightarrow> fs \<Rightarrow> string \<Rightarrow> entry \<Rightarrow> line list" where
  "hash_change hexdigest fs fpath recorded =
     (case map_of recorded ''hash'' of
        None \<Rightarrow> []
      | Some old \<Rightarrow>
          (case file_digest hexdigest fs fpath of
             Inl e \<Rightarrow> []
           | Inr cur \<Rightarrow> if StrV cur \<noteq> old then [WarnHashChanged fpath, HashChangedFromTo old cur] else []))"

section \<open>Basic facts about the state\<close>

lemma print_store [simp]: "store (print l w) = store w"
  by (simp add: print_def)

lemma print_open_files [simp]: "open_files (print l w) = open_files w"
  by (simp add: print_def)

lemma print_out [simp]: "out (print l w) = out w @ [l]"
  by (simp add: print_def)

lemma sha256file_store: "sha256file H fs p w = (x, w') \<Longrightarrow> store w' = store w"
  by (auto simp add: sha256file_def Let_def split: option.splits sum.splits prod.splits if_splits)

lemma sha256file_out: "sha256file H fs p w = (x, w') \<Longrightarrow> out w' = out w"
  by (auto simp add: sha256file_def Let_def split: option.splits sum.splits prod.splits if_splits)

lemma sha256file_success: "sha256file H fs p w = (Inr h, w') \<Longrightarrow> w' = w"
  by (auto simp add: sha256file_def Let_def split: option.splits sum.splits prod.splits if_splits)

lemma sha256file_fst: "fst (sha256file H fs p w) = fst (sha256file H fs p w2)"
  by (simp add: sha256file_def Let_def split: option.splits sum.splits prod.splits)

lemma verify_missing_store: "verify_missing ks files dirs c w = (c', w') \<Longrightarrow> store w' = store w"
  by (induction ks files dirs c w rule: verify_missing.induct) (auto split: if_splits)

lemma compare_attrs_store: "compare_attrs p r cur hm c w = (hm', c', w') \<Longrightarrow> store w' = store w"
  by (induction p r cur hm c w rule: compare_attrs.induct) (auto split: option.splits if_splits)

lemma verify_file_store: "verify_file H fs p c w = (x, w') \<Longrightarrow> store w' = store w"
  by (auto simp add: verify_file_def split: option.splits sum.splits prod.splits if_splits
      dest!: compare_attrs_store sha256file_store)

lemma verify_dir_store: "verify_dir fs p c w = (x, w') \<Longrightarrow> store w' = store w"
  by (auto simp add: verify_dir_def split: option.splits sum.splits prod.splits if_splits
      dest!: compare_attrs_store)

lemma verify_files_store: "verify_files H fs ps c w = (x, w') \<Longrightarrow> store w' = store w"
  by (induction ps arbitrary: c w) (auto split: sum.splits prod.splits dest!: verify_file_store)

lemma verify_dirs_store: "verify_dirs fs ps c w = (x, w') \<Longrightarrow> store w' = store w"
  by (induction ps arbitrary: c w) (auto split: sum.splits prod.splits dest!: verify_dir_store)

lemma verify_summary_store: "verify_summary c w = (r, w') \<Longrightarrow> store w' = store w"
  by (auto simp add: verify_summary_def Let_def split: if_splits)

lemma verify_store: "verify H fs files dirs w = (x, w') \<Longrightarrow> store w' = store w"
  by (auto simp add: verify_def Let_def split: sum.splits prod.splits
      dest!: verify_missing_store verify_files_store verify_dirs_store verify_summary_store)

section \<open>Facts about \<^verbatim>\<open>sha256file\<close>, \<^verbatim>\<open>oct\<close> and the entry computation\<close>

lemma sha256_loop_read_error:
  "buffer \<noteq> [] \<Longrightarrow> read_fails nd = Some k \<Longrightarrow> sha256_loop nd k rest buffer acc = Inl IOError"
  by (subst sha256_loop.simps) (simp add: fread_def)

lemma sha256_loop_empty: "sha256_loop nd k rest [] acc = Inr acc"
  by (subst sha256_loop.simps) simp

lemma octdigit_val_octdigit: "d < 8 \<Longrightarrow> octdigit_val (octdigit d) = d"
proof -
  assume "d < 8"
  then have "d \<in> {0, 1, 2, 3, 4, 5, 6, 7}" by auto
  then show ?thesis by (auto simp: octdigit_def octdigit_val_def)
qed

lemma octal_value_snoc: "octal_value (s @ [c]) = 8 * octal_value s + octdigit_val c"
  by (simp add: octal_value_def)

lemma octal_value_octdigits: "octal_value (octdigits n) = n"
proof (induction n rule: octdigits.induct)
  case (1 n)
  show ?case
  proof (cases "n < 8")
    case True
    then show ?thesis by (subst octdigits.simps) (simp add: octal_value_def octdigit_val_octdigit)
  next
    case False
    with 1 show ?thesis
      by (subst octdigits.simps) (simp add: octal_value_snoc octdigit_val_octdigit)
  qed
qed

lemma S_IMODE_mod: "S_IMODE m = m mod 4096"
proof -
  have "m AND mask 12 = m mod 2 ^ 12" by (simp add: take_bit_eq_mod flip: take_bit_eq_mask)
  then show ?thesis by (simp add: S_IMODE_def mask_eq_exp_minus_1)
qed

lemma filedata_Inr:
  "filedata fs p = Inr e \<longleftrightarrow> (\<exists>stats. fs p = Some stats \<and> st_kind stats = RegularFile \<and>
     e = [(''type'', StrV ''f''), (''uid'', IntV (st_uid stats)), (''gid'', IntV (st_gid stats)),
          (''mode'', StrV (oct (S_IMODE (st_mode stats)))), (''size'', IntV (st_size stats))])"
  by (auto simp: filedata_def isfile_def split: option.splits)

lemma dirdata_Inr:
  "dirdata fs p = Inr e \<longleftrightarrow> (\<exists>stats. fs p = Some stats \<and> st_kind stats = Directory \<and>
     e = [(''type'', StrV ''d''), (''uid'', IntV (st_uid stats)), (''gid'', IntV (st_gid stats)),
          (''mode'', StrV (oct (S_IMODE (st_mode stats))))])"
  by (auto simp: dirdata_def isdir_def split: option.splits)

section \<open>Facts about \<^verbatim>\<open>verify\<close>'s comparison of one path\<close>

lemma field_changes_Nil [simp]: "field_changes r [] = []"
  by (simp add: field_changes_def map_filter_simps)

lemma field_changes_Cons:
  "field_changes r ((k, cur) # rest) =
     (case map_of r k of
        None \<Rightarrow> field_changes r rest
      | Some old \<Rightarrow> if cur \<noteq> old then FieldChanged k old cur # field_changes r rest
                    else field_changes r rest)"
  by (simp add: field_changes_def map_filter_simps split: option.splits)

lemma field_changes_keys:
  "FieldChanged k a b \<in> set (field_changes r cur) \<Longrightarrow> k \<in> fst ` set cur"
  by (induction cur) (auto simp: field_changes_Cons split: option.splits if_splits)

lemma compare_attrs_result:
  "compare_attrs path r cur hm c w =
     (hm \<or> field_changes r cur \<noteq> [],
      (if \<not> hm \<and> field_changes r cur \<noteq> [] then c\<lparr>mismatch_count := mismatch_count c + 1\<rparr> else c),
      w\<lparr>out := out w @ (if \<not> hm \<and> field_changes r cur \<noteq> [] then [WarnMismatch path] else [])
                 @ field_changes r cur\<rparr>)"
proof (induction path r cur hm c w rule: compare_attrs.induct)
  case (1 path recorded has_mismatch c w)
  then show ?case by simp
next
  case (2 path recorded key cur rest has_mismatch c w)
  then show ?case
    by (cases "map_of recorded key") (auto simp: field_changes_Cons print_def)
qed

lemma sha256file_digest:
  "sha256file H fs p w = (x, w') \<Longrightarrow> file_digest H fs p = x"
  using sha256file_fst [of H fs p w empty_world] by (simp add: file_digest_def)

lemma sha256file_digest_Inr:
  "file_digest H fs p = Inr h \<Longrightarrow> sha256file H fs p w = (Inr h, w)"
  using sha256file_fst [of H fs p w empty_world] sha256file_success [of H fs p w h "snd (sha256file H fs p w)"]
  by (cases "sha256file H fs p w") (simp add: file_digest_def)

lemma motd_filedata:
  "filedata motd_fs ''/etc/motd'' =
     Inr [(''type'', StrV ''f''), (''uid'', IntV 1000), (''gid'', IntV 1000),
          (''mode'', StrV ''0o644''), (''size'', IntV 3)]"
  by (simp add: motd_fs_def filedata_def isfile_def file_node_def S_IMODE_def oct_def
      octdigits.simps octdigit_def)

lemma motd_digest: "file_digest toy_hexdigest motd_fs ''/etc/motd'' = Inr ''abc''"
  by (simp add: file_digest_def motd_fs_def sha256file_def isfile_def file_node_def fread_def
      BUFSIZE_def Let_def sha256_loop_empty sha256_loop.simps [of _ _ _ "''abc''"] toy_hexdigest_def)

section \<open>Facts about the loop of \<^verbatim>\<open>cksum\<close>\<close>

lemma cksum_files_step:
  assumes "tracked_unhashed (store w) a" and "file_digest H fs a = Inr ha"
  shows "cksum_files H fs (a # rest) n w =
         cksum_files H fs rest (n + 1)
           (w\<lparr>store := AList.map_entry a (AList.update ''hash'' (StrV ha)) (store w)\<rparr>)"
  using assms sha256file_digest_Inr [OF assms(2), of w]
  by (auto simp: tracked_unhashed_def contains_def getitem_def split: option.splits)

lemma cksum_files_prefix:
  assumes "distinct pre"
    and "\<forall>q\<in>set pre. tracked_unhashed (store w) q \<and> file_digest H fs q = Inr (h q)"
  shows "\<exists>w1. cksum_files H fs (pre @ rest) n w = cksum_files H fs rest (n + length pre) w1 \<and>
           out w1 = out w \<and> open_files w1 = open_files w \<and>
           (\<forall>q. map_of (store w1) q =
              (if q \<in> set pre then map_option (AList.update ''hash'' (StrV (h q))) (map_of (store w) q)
               else map_of (store w) q))"
  using assms
proof (induction pre arbitrary: n w)
  case Nil
  then show ?case by (intro exI [of _ w]) simp
next
  case (Cons a pre)
  let ?w = "w\<lparr>store := AList.map_entry a (AList.update ''hash'' (StrV (h a))) (store w)\<rparr>"
  have step: "cksum_files H fs ((a # pre) @ rest) n w = cksum_files H fs (pre @ rest) (n + 1) ?w"
    using Cons.prems cksum_files_step [of w a H fs "h a" "pre @ rest" n] by simp
  have other: "\<And>q. q \<noteq> a \<Longrightarrow> map_of (store ?w) q = map_of (store w) q"
    by (simp add: map_of_map_entry)
  have this_one: "map_of (store ?w) a = map_option (AList.update ''hash'' (StrV (h a))) (map_of (store w) a)"
    by (simp add: map_of_map_entry split: option.splits)
  have pre: "\<forall>q\<in>set pre. tracked_unhashed (store ?w) q \<and> file_digest H fs q = Inr (h q)"
  proof
    fix q assume q: "q \<in> set pre"
    with Cons.prems have "q \<noteq> a" by auto
    with q Cons.prems other [of q] show "tracked_unhashed (store ?w) q \<and> file_digest H fs q = Inr (h q)"
      by (simp add: tracked_unhashed_def)
  qed
  from Cons.prems have "distinct pre" by simp
  from Cons.IH [OF this pre, of "n + 1"] obtain w1 where
    w1: "cksum_files H fs (pre @ rest) (n + 1) ?w = cksum_files H fs rest (n + 1 + length pre) w1"
      "out w1 = out ?w" "open_files w1 = open_files ?w"
      "\<forall>q. map_of (store w1) q =
              (if q \<in> set pre then map_option (AList.update ''hash'' (StrV (h q))) (map_of (store ?w) q)
               else map_of (store ?w) q)"
    by blast
  have "\<forall>q. map_of (store w1) q =
              (if q \<in> set (a # pre) then map_option (AList.update ''hash'' (StrV (h q))) (map_of (store w) q)
               else map_of (store w) q)"
  proof
    fix q
    show "map_of (store w1) q =
              (if q \<in> set (a # pre) then map_option (AList.update ''hash'' (StrV (h q))) (map_of (store w) q)
               else map_of (store w) q)"
    proof (cases "q = a")
      case True
      with Cons.prems have "q \<notin> set pre" by auto
      with w1(4) True this_one show ?thesis by simp
    next
      case False
      with w1(4) other [of q] show ?thesis by simp
    qed
  qed
  with step w1 show ?case by (intro exI [of _ w1]) simp
qed

lemma cksum_files_fail:
  assumes "\<not> tracked_unhashed (store w) p"
  shows "cksum_files H fs (p # post) n w =
     (Inr (Return False),
      w\<lparr>out := out w @ (if contains (store w) p then [ErrHashExists p, UseUpdateReset]
                          else [ErrNotInDb p, UseAddFirst])\<rparr>)"
  using assms
  by (auto simp: tracked_unhashed_def contains_def getitem_def print_def split: option.splits)

section \<open>Facts about the loops of \<^verbatim>\<open>add\<close> and about \<^verbatim>\<open>count\<close>\<close>

lemma contains_keys: "contains d k \<longleftrightarrow> k \<in> set (map fst d)"
  by (simp add: contains_def map_of_eq_None_iff)

lemma isfile_filedata: "isfile fs p \<Longrightarrow> \<exists>props. filedata fs p = Inr props \<and> fresh_entry fs p = Some props"
  by (auto simp: fresh_entry_def filedata_def isfile_def split: option.splits)

lemma isdir_dirdata: "isdir fs p \<Longrightarrow> \<exists>props. dirdata fs p = Inr props \<and> fresh_entry fs p = Some props"
  by (auto simp: fresh_entry_def dirdata_def isfile_def isdir_def split: option.splits)

lemma fresh_entry_typed: "fresh_entry fs p = Some props \<Longrightarrow> contains props ''type''"
  by (auto simp: fresh_entry_def filedata_Inr dirdata_Inr contains_def split: if_splits sum.splits)

lemma update_new_key: "k \<notin> set (map fst d) \<Longrightarrow> map fst (AList.update k v d) = map fst d @ [k]"
  by (simp add: update_keys)

lemma add_files_prefix:
  assumes "distinct pre"
    and "\<forall>q\<in>set pre. \<not> contains (store w) q \<and> isfile fs q"
  shows "\<exists>w1. add_files fs (pre @ rest) w = add_files fs rest w1 \<and>
           out w1 = out w \<and> open_files w1 = open_files w \<and>
           map fst (store w1) = map fst (store w) @ pre \<and>
           (\<forall>q. map_of (store w1) q =
              (if q \<in> set pre then fresh_entry fs q else map_of (store w) q))"
  using assms
proof (induction pre arbitrary: w)
  case Nil
  then show ?case by (intro exI [of _ w]) simp
next
  case (Cons a pre)
  from Cons.prems obtain props where
    props: "filedata fs a = Inr props" "fresh_entry fs a = Some props"
    using isfile_filedata [of fs a] by auto
  let ?w = "w\<lparr>store := AList.update a props (store w)\<rparr>"
  from Cons.prems have na: "a \<notin> set (map fst (store w))"
    by (simp add: contains_keys)
  have step: "add_files fs ((a # pre) @ rest) w = add_files fs (pre @ rest) ?w"
    using Cons.prems props by simp
  have keys: "map fst (store ?w) = map fst (store w) @ [a]"
    using na by (simp add: update_new_key)
  have pre: "\<forall>q\<in>set pre. \<not> contains (store ?w) q \<and> isfile fs q"
    using Cons.prems keys by (auto simp: contains_keys)
  from Cons.prems have "distinct pre" by simp
  from Cons.IH [OF this pre] obtain w1 where
    w1: "add_files fs (pre @ rest) ?w = add_files fs rest w1"
      "out w1 = out ?w" "open_files w1 = open_files ?w"
      "map fst (store w1) = map fst (store ?w) @ pre"
      "\<forall>q. map_of (store w1) q = (if q \<in> set pre then fresh_entry fs q else map_of (store ?w) q)"
    by blast
  have "\<forall>q. map_of (store w1) q = (if q \<in> set (a # pre) then fresh_entry fs q else map_of (store w) q)"
    using w1(5) props(2) Cons.prems(1) by (auto simp: update_conv')
  with step w1 keys show ?case by (intro exI [of _ w1]) simp
qed

lemma add_dirs_prefix:
  assumes "distinct pre"
    and "\<forall>q\<in>set pre. \<not> contains (store w) q \<and> isdir fs q"
  shows "\<exists>w1. add_dirs fs (pre @ rest) w = add_dirs fs rest w1 \<and>
           out w1 = out w \<and> open_files w1 = open_files w \<and>
           map fst (store w1) = map fst (store w) @ pre \<and>
           (\<forall>q. map_of (store w1) q =
              (if q \<in> set pre then fresh_entry fs q else map_of (store w) q))"
  using assms
proof (induction pre arbitrary: w)
  case Nil
  then show ?case by (intro exI [of _ w]) simp
next
  case (Cons a pre)
  from Cons.prems obtain props where
    props: "dirdata fs a = Inr props" "fresh_entry fs a = Some props"
    using isdir_dirdata [of fs a] by auto
  let ?w = "w\<lparr>store := AList.update a props (store w)\<rparr>"
  from Cons.prems have na: "a \<notin> set (map fst (store w))"
    by (simp add: contains_keys)
  have step: "add_dirs fs ((a # pre) @ rest) w = add_dirs fs (pre @ rest) ?w"
    using Cons.prems props by simp
  have keys: "map fst (store ?w) = map fst (store w) @ [a]"
    using na by (simp add: update_new_key)
  have pre: "\<forall>q\<in>set pre. \<not> contains (store ?w) q \<and> isdir fs q"
    using Cons.prems keys by (auto simp: contains_keys)
  from Cons.prems have "distinct pre" by simp
  from Cons.IH [OF this pre] obtain w1 where
    w1: "add_dirs fs (pre @ rest) ?w = add_dirs fs rest w1"
      "out w1 = out ?w" "open_files w1 = open_files ?w"
      "map fst (store w1) = map fst (store ?w) @ pre"
      "\<forall>q. map_of (store w1) q = (if q \<in> set pre then fresh_entry fs q else map_of (store ?w) q)"
    by blast
  have "\<forall>q. map_of (store w1) q = (if q \<in> set (a # pre) then fresh_entry fs q else map_of (store w) q)"
    using w1(5) props(2) Cons.prems(1) by (auto simp: update_conv')
  with step w1 keys show ?case by (intro exI [of _ w1]) simp
qed

lemma add_files_conflict:
  "contains (store w) p \<Longrightarrow>
   add_files fs (p # post) w = (Inr (Return False), w\<lparr>out := out w @ [FileAlready p, UseCheckOrUpdate]\<rparr>)"
  by (simp add: print_def)

lemma add_dirs_conflict:
  "contains (store w) p \<Longrightarrow>
   add_dirs fs (p # post) w = (Inr (Return False), w\<lparr>out := out w @ [DirAlready p, UseCheckOrUpdate]\<rparr>)"
  by (simp add: print_def)

lemma count_entries_ok:
  "\<forall>k\<in>set ks. \<exists>props. map_of data k = Some props \<and> contains props ''type'' \<Longrightarrow>
   \<exists>f' d'. count_entries data ks f d = Inr (f', d')"
  by (induction ks arbitrary: f d) (auto simp: getitem_def contains_def)

lemma count_ok:
  assumes "\<forall>k\<in>set (map fst data). \<exists>props. map_of data k = Some props \<and> contains props ''type''"
  shows "\<exists>f d. count (Some data) None None w = (Inr True, print (DbContains f d) w)"
proof -
  from count_entries_ok [OF assms, of 0 0] obtain f d where
    "count_entries data (map fst data) 0 0 = Inr (f, d)" by blast
  then show ?thesis by (auto simp: count_def truthy_def)
qed

lemma conflict_position:
  assumes "files @ directories = pre @ p # post"
  obtains (in_files) post1 where "files = pre @ p # post1" "length pre < length files"
  | (in_dirs) pre2 where "pre = files @ pre2" "directories = pre2 @ p # post" "\<not> length pre < length files"
proof -
  from assms obtain us where
    "(files = pre @ us \<and> us @ directories = p # post) \<or> (files @ us = pre \<and> directories = us @ p # post)"
    by (auto simp: append_eq_append_conv2)
  then show thesis
  proof
    assume a: "files = pre @ us \<and> us @ directories = p # post"
    show thesis
    proof (cases us)
      case Nil
      with a show thesis by (intro in_dirs [of "[]"]) auto
    next
      case (Cons u us')
      with a show thesis by (intro in_files [of us']) auto
    qed
  next
    assume "files @ us = pre \<and> directories = us @ p # post"
    then show thesis by (intro in_dirs [of us]) auto
  qed
qed


section \<open>Facts about \<^verbatim>\<open>update\<close>\<close>

lemma dict_update_other:
  "k \<notin> fst ` set e \<Longrightarrow> map_of (dict_update d e) k = map_of d k"
  unfolding dict_update_def
  by (induction e arbitrary: d) (auto simp: update_conv')

lemma dict_update_new:
  "distinct (map fst e) \<Longrightarrow> (k, v) \<in> set e \<Longrightarrow> map_of (dict_update d e) k = Some v"
proof (induction e arbitrary: d)
  case Nil
  then show ?case by simp
next
  case (Cons x e)
  obtain k0 v0 where x: "x = (k0, v0)" by (cases x)
  have unf: "dict_update d (x # e) = dict_update (AList.update k0 v0 d) e"
    by (simp add: dict_update_def x)
  show ?case
  proof (cases "(k, v) \<in> set e")
    case True
    with Cons show ?thesis by (simp add: unf)
  next
    case False
    with Cons.prems x have "k = k0" "v = v0" "k \<notin> fst ` set e" by auto
    then show ?thesis by (simp add: unf dict_update_other update_conv')
  qed
qed

lemma dict_update_agrees: "distinct (map fst e) \<Longrightarrow> agrees (dict_update d e) e"
  by (auto simp: agrees_def list_all_iff dict_update_new)

lemma agrees_self: "distinct (map fst e) \<Longrightarrow> agrees e e"
  by (auto simp: agrees_def list_all_iff)

lemma dict_update_noop: "agrees d e \<Longrightarrow> dict_update d e = d"
  unfolding dict_update_def agrees_def
  by (induction e) (auto simp: update_triv)

lemma fold_flag:
  "fold (\<lambda>k c. if P k then True else c) ks b = (b \<or> (\<exists>k\<in>set ks. P k))"
  by (induction ks arbitrary: b) auto

lemma detect_changed_iff:
  assumes "distinct (map fst current)"
  shows "detect_changed old current = (\<not> agrees old current)"
proof -
  have m: "\<And>k v. (k, v) \<in> set current \<Longrightarrow> map_of current k = Some v"
    using assms by simp
  have "detect_changed old current =
          (\<exists>x\<in>set current. map_of old (fst x) = None \<or> map_of old (fst x) \<noteq> map_of current (fst x))"
    by (simp add: detect_changed_def fold_flag contains_def)
  also have "\<dots> = (\<exists>x\<in>set current. map_of old (fst x) \<noteq> Some (snd x))"
  proof (intro bex_cong refl)
    fix x assume "x \<in> set current"
    then have "map_of current (fst x) = Some (snd x)" using m [of "fst x" "snd x"] by simp
    then show "(map_of old (fst x) = None \<or> map_of old (fst x) \<noteq> map_of current (fst x)) =
               (map_of old (fst x) \<noteq> Some (snd x))"
      by auto
  qed
  also have "\<dots> = (\<not> agrees old current)"
    by (simp add: agrees_def list_all_iff case_prod_beta)
  finally show ?thesis .
qed

lemma filedata_keys:
  "filedata fs p = Inr current \<Longrightarrow> distinct (map fst current) \<and> ''hash'' \<notin> fst ` set current"
  by (auto simp: filedata_Inr)

lemma dirdata_keys:
  "dirdata fs p = Inr current \<Longrightarrow> distinct (map fst current) \<and> ''hash'' \<notin> fst ` set current"
  by (auto simp: dirdata_Inr)

lemma filedata_isfile: "filedata fs p = Inr current \<Longrightarrow> isfile fs p"
  by (auto simp: filedata_Inr isfile_def)

lemma dirdata_isdir: "dirdata fs p = Inr current \<Longrightarrow> isdir fs p"
  by (auto simp: dirdata_Inr isdir_def)

lemma not_file_and_dir: "isfile fs p \<Longrightarrow> isdir fs p \<Longrightarrow> False"
  by (auto simp: isfile_def isdir_def split: option.splits)

lemma agrees_delete:
  "k \<notin> fst ` set current \<Longrightarrow> agrees props current \<Longrightarrow> agrees (AList.delete k props) current"
  by (auto simp: agrees_def list_all_iff delete_conv' dest!: bspec) force+


lemma update_file_existing:
  assumes "map_of (store w) p = Some old" and "filedata fs p = Inr current"
  shows "update_file fs p c w =
     (Inr (c\<lparr>removed_hash_count := removed_hash_count c + (if contains old ''hash'' then 1 else 0),
             changed_count := changed_count c + (if agrees old current then 0 else 1)\<rparr>),
      w\<lparr>store := AList.update p (AList.delete ''hash'' (dict_update old current)) (store w)\<rparr>)"
proof -
  from assms(2) have k: "distinct (map fst current)" "''hash'' \<notin> fst ` set current"
    using filedata_keys by auto
  have h: "contains (dict_update old current) ''hash'' = contains old ''hash''"
    using k(2) by (simp add: contains_def dict_update_other)
  have d: "\<not> contains old ''hash'' \<Longrightarrow> AList.delete ''hash'' (dict_update old current) = dict_update old current"
    using h by (simp add: contains_def map_of_eq_None_iff)
  show ?thesis
    using assms h d
    by (auto simp: update_file_def contains_def getitem_def Let_def detect_changed_iff [OF k(1)])
qed

lemma update_file_new:
  assumes "map_of (store w) p = None" and "filedata fs p = Inr current"
  shows "update_file fs p c w =
     (Inr (c\<lparr>new_count := new_count c + 1\<rparr>), w\<lparr>store := AList.update p current (store w)\<rparr>)"
  using assms by (simp add: update_file_def contains_def)

lemma update_file_Inr:
  "update_file fs p c w = (Inr c', w') \<Longrightarrow> \<exists>current. filedata fs p = Inr current"
  by (cases "filedata fs p") (auto simp: update_file_def split: if_splits)

lemma update_dir_existing:
  assumes "map_of (store w) p = Some old" and "dirdata fs p = Inr current"
  shows "update_dir fs p c w =
     (Inr (c\<lparr>changed_count := changed_count c + (if agrees old current then 0 else 1)\<rparr>),
      w\<lparr>store := AList.update p (dict_update old current) (store w)\<rparr>)"
proof -
  from assms(2) have k: "distinct (map fst current)"
    using dirdata_keys by auto
  show ?thesis
    using assms
    by (auto simp: update_dir_def contains_def getitem_def Let_def detect_changed_iff [OF k])
qed

lemma update_dir_new:
  assumes "map_of (store w) p = None" and "dirdata fs p = Inr current"
  shows "update_dir fs p c w =
     (Inr (c\<lparr>new_count := new_count c + 1\<rparr>), w\<lparr>store := AList.update p current (store w)\<rparr>)"
  using assms by (simp add: update_dir_def contains_def)

lemma update_dir_Inr:
  "update_dir fs p c w = (Inr c', w') \<Longrightarrow> \<exists>current. dirdata fs p = Inr current"
  by (cases "dirdata fs p") (auto simp: update_dir_def split: if_splits)

lemma has_hash_cong: "map_of d p = map_of d' p \<Longrightarrow> has_hash d p = has_hash d' p"
  by (simp add: has_hash_def)

lemma file_synced_cong: "map_of d p = map_of d' p \<Longrightarrow> file_synced fs d p = file_synced fs d' p"
  by (simp add: file_synced_def)

lemma dir_synced_cong: "map_of d p = map_of d' p \<Longrightarrow> dir_synced fs d p = dir_synced fs d' p"
  by (simp add: dir_synced_def)

lemma file_synced_no_hash: "file_synced fs d p \<Longrightarrow> \<not> has_hash d p"
  by (auto simp: file_synced_def has_hash_def split: option.splits sum.splits)

lemma update_file_post:
  assumes "update_file fs p c w = (Inr c', w')"
  shows "isfile fs p \<and> file_synced fs (store w') p \<and>
         (\<forall>q. q \<noteq> p \<longrightarrow> map_of (store w') q = map_of (store w) q) \<and>
         set (map fst (store w')) = insert p (set (map fst (store w))) \<and>
         removed_hash_count c' = removed_hash_count c + (if has_hash (store w) p then 1 else 0) \<and>
         removed_entry_count c' = removed_entry_count c \<and> out w' = out w"
proof -
  from update_file_Inr [OF assms] obtain current where cur: "filedata fs p = Inr current"
    by blast
  then have k: "distinct (map fst current)" "''hash'' \<notin> fst ` set current"
    using filedata_keys by auto
  have keys: "\<And>v. set (map fst (AList.update p v (store w))) = insert p (set (map fst (store w)))"
    using dom_update [of p _ "store w"] by simp
  show ?thesis
  proof (cases "map_of (store w) p")
    case None
    from assms update_file_new [OF None cur, of c]
    have "c' = c\<lparr>new_count := new_count c + 1\<rparr>" "w' = w\<lparr>store := AList.update p current (store w)\<rparr>"
      by auto
    moreover have "\<not> contains current ''hash''"
      using k(2) by (simp add: contains_def map_of_eq_None_iff)
    ultimately show ?thesis
      using None cur k keys
      by (simp add: filedata_isfile file_synced_def has_hash_def update_conv' agrees_self)
  next
    case (Some old)
    let ?e = "AList.delete ''hash'' (dict_update old current)"
    from assms update_file_existing [OF Some cur, of c]
    have r: "c' = c\<lparr>removed_hash_count := removed_hash_count c + (if contains old ''hash'' then 1 else 0),
             changed_count := changed_count c + (if agrees old current then 0 else 1)\<rparr>"
         "w' = w\<lparr>store := AList.update p ?e (store w)\<rparr>"
      by auto
    have "agrees ?e current"
      using k by (simp add: agrees_delete dict_update_agrees)
    moreover have "\<not> contains ?e ''hash''"
      by (simp add: contains_def delete_conv')
    ultimately have "file_synced fs (store w') p"
      using r(2) cur by (simp add: file_synced_def update_conv')
    with r Some cur keys show ?thesis
      by (simp add: filedata_isfile has_hash_def update_conv')
  qed
qed

lemma update_dir_post:
  assumes "update_dir fs p c w = (Inr c', w')"
  shows "isdir fs p \<and> dir_synced fs (store w') p \<and>
         (\<forall>q. q \<noteq> p \<longrightarrow> map_of (store w') q = map_of (store w) q) \<and>
         set (map fst (store w')) = insert p (set (map fst (store w))) \<and>
         removed_hash_count c' = removed_hash_count c \<and>
         removed_entry_count c' = removed_entry_count c \<and> out w' = out w"
proof -
  from update_dir_Inr [OF assms] obtain current where cur: "dirdata fs p = Inr current"
    by blast
  then have k: "distinct (map fst current)"
    using dirdata_keys by auto
  have keys: "\<And>v. set (map fst (AList.update p v (store w))) = insert p (set (map fst (store w)))"
    using dom_update [of p _ "store w"] by simp
  show ?thesis
  proof (cases "map_of (store w) p")
    case None
    from assms update_dir_new [OF None cur, of c]
    have "c' = c\<lparr>new_count := new_count c + 1\<rparr>" "w' = w\<lparr>store := AList.update p current (store w)\<rparr>"
      by auto
    with None cur k keys show ?thesis
      by (simp add: dirdata_isdir dir_synced_def update_conv' agrees_self)
  next
    case (Some old)
    from assms update_dir_existing [OF Some cur, of c]
    have r: "c' = c\<lparr>changed_count := changed_count c + (if agrees old current then 0 else 1)\<rparr>"
         "w' = w\<lparr>store := AList.update p (dict_update old current) (store w)\<rparr>"
      by auto
    with Some cur k keys show ?thesis
      by (simp add: dirdata_isdir dir_synced_def update_conv' dict_update_agrees)
  qed
qed

lemma card_filter_insert:
  assumes "finite S"
  shows "card {p \<in> insert a S. P p} = (if P a then 1 else 0) + card {p \<in> S. p \<noteq> a \<and> P p}"
proof -
  have fin: "finite {p \<in> S. p \<noteq> a \<and> P p}" using assms by simp
  show ?thesis
  proof (cases "P a")
    case True
    then have "{p \<in> insert a S. P p} = insert a {p \<in> S. p \<noteq> a \<and> P p}" by auto
    with fin True show ?thesis by simp
  next
    case False
    then have "{p \<in> insert a S. P p} = {p \<in> S. p \<noteq> a \<and> P p}" by auto
    with False show ?thesis by simp
  qed
qed

lemma update_files_post:
  assumes "update_files fs fl c w = (Inr c', w')"
  shows "(\<forall>p\<in>set fl. isfile fs p \<and> file_synced fs (store w') p) \<and>
         (\<forall>q. q \<notin> set fl \<longrightarrow> map_of (store w') q = map_of (store w) q) \<and>
         set (map fst (store w')) = set fl \<union> set (map fst (store w)) \<and>
         removed_hash_count c' = removed_hash_count c + card {p \<in> set fl. has_hash (store w) p} \<and>
         removed_entry_count c' = removed_entry_count c \<and> out w' = out w"
  using assms
proof (induction fl arbitrary: c w)
  case Nil
  then show ?case by simp
next
  case (Cons a fl)
  from Cons.prems obtain c1 w1 where
    s: "update_file fs a c w = (Inr c1, w1)" and r: "update_files fs fl c1 w1 = (Inr c', w')"
    by (auto split: prod.splits sum.splits)
  note st = update_file_post [OF s]
  note ih = Cons.IH [OF r]
  have a_synced: "file_synced fs (store w') a"
  proof (cases "a \<in> set fl")
    case True
    with ih show ?thesis by simp
  next
    case False
    with ih have "map_of (store w') a = map_of (store w1) a" by simp
    with st file_synced_cong [of "store w'" a "store w1" fs] show ?thesis by simp
  qed
  have hh: "{p \<in> set fl. has_hash (store w1) p} = {p \<in> set fl. p \<noteq> a \<and> has_hash (store w) p}"
  proof -
    have na: "\<not> has_hash (store w1) a" using st file_synced_no_hash by blast
    have oth: "\<And>p. p \<noteq> a \<Longrightarrow> has_hash (store w1) p = has_hash (store w) p"
      using st has_hash_cong [of "store w1" _ "store w"] by simp
    have "\<And>p. has_hash (store w1) p = (p \<noteq> a \<and> has_hash (store w) p)"
    proof -
      fix p show "has_hash (store w1) p = (p \<noteq> a \<and> has_hash (store w) p)"
        by (cases "p = a") (simp_all add: na oth)
    qed
    then show ?thesis by simp
  qed
  have cnt: "removed_hash_count c' = removed_hash_count c + card {p \<in> set (a # fl). has_hash (store w) p}"
    using ih st hh card_filter_insert [of "set fl" a "has_hash (store w)"] by simp
  from ih st a_synced cnt show ?case by auto
qed

lemma update_dirs_post:
  assumes "update_dirs fs dl c w = (Inr c', w')"
  shows "(\<forall>p\<in>set dl. isdir fs p \<and> dir_synced fs (store w') p) \<and>
         (\<forall>q. q \<notin> set dl \<longrightarrow> map_of (store w') q = map_of (store w) q) \<and>
         set (map fst (store w')) = set dl \<union> set (map fst (store w)) \<and>
         removed_hash_count c' = removed_hash_count c \<and>
         removed_entry_count c' = removed_entry_count c \<and> out w' = out w"
  using assms
proof (induction dl arbitrary: c w)
  case Nil
  then show ?case by simp
next
  case (Cons a dl)
  from Cons.prems obtain c1 w1 where
    s: "update_dir fs a c w = (Inr c1, w1)" and r: "update_dirs fs dl c1 w1 = (Inr c', w')"
    by (auto split: prod.splits sum.splits)
  note st = update_dir_post [OF s]
  note ih = Cons.IH [OF r]
  have a_synced: "dir_synced fs (store w') a"
  proof (cases "a \<in> set dl")
    case True
    with ih show ?thesis by simp
  next
    case False
    with ih have "map_of (store w') a = map_of (store w1) a" by simp
    with st dir_synced_cong [of "store w'" a "store w1" fs] show ?thesis by simp
  qed
  from ih st a_synced show ?case by auto
qed

lemma remove_entries_result:
  "remove_entries ks data n = (fold AList.delete ks data, n + length ks)"
  by (induction ks arbitrary: data n) auto

lemma map_of_fold_delete:
  "map_of (fold AList.delete ks data) q = (if q \<in> set ks then None else map_of data q)"
  by (induction ks arbitrary: data) (auto simp: delete_conv')

lemma keys_delete: "fst ` set (AList.delete k data) = fst ` set data - {k}"
  using delete_keys [of k data] by (metis set_map set_removeAll)

lemma keys_fold_delete:
  "fst ` set (fold AList.delete ks data) = fst ` set data - set ks"
  by (induction ks arbitrary: data) (auto simp: keys_delete)

lemma fold_print_store [simp]: "store (fold print ls w) = store w"
  by (induction ls arbitrary: w) auto

lemma fold_print_out [simp]: "out (fold print ls w) = out w @ ls"
  by (induction ls arbitrary: w) auto

lemma fold_print_eq: "fold print ls w = w\<lparr>out := out w @ ls\<rparr>"
  by (induction ls arbitrary: w) (auto simp: print_def)

lemma update_Inr:
  "update fs files dirs w = (Inr r, w') \<Longrightarrow>
   \<exists>c w3. update_run fs files dirs w = (Inr c, w3) \<and> r = True \<and> w' = fold print (update_summary c) w3"
  by (auto simp: update_def split: prod.splits sum.splits)

lemma update_run_post:
  assumes "update_run fs files dirs w = (Inr c, w')"
  shows "(\<forall>p\<in>set files. isfile fs p \<and> file_synced fs (store w') p) \<and>
         (\<forall>p\<in>set dirs. isdir fs p \<and> dir_synced fs (store w') p) \<and>
         set (map fst (store w')) \<subseteq> set files \<union> set dirs \<and>
         removed_hash_count c = card {p \<in> set files. has_hash (store w) p} \<and>
         out w' = out w"
proof -
  let ?tr = "filter (\<lambda>entry. entry \<notin> set files \<and> entry \<notin> set dirs) (map fst (store w))"
  let ?d1 = "fold AList.delete ?tr (store w)"
  let ?c0 = "\<lparr>new_count = 0, changed_count = 0, removed_hash_count = 0,
                removed_entry_count = 0 + length ?tr\<rparr>"
  from assms obtain c1 w2 where
    f: "update_files fs files ?c0 (w\<lparr>store := ?d1\<rparr>) = (Inr c1, w2)" and
    d: "update_dirs fs dirs c1 w2 = (Inr c, w')"
    by (auto simp: update_run_def remove_entries_result Let_def split: prod.splits sum.splits)
  note pf = update_files_post [OF f]
  note pd = update_dirs_post [OF d]
  have disj: "\<And>p. p \<in> set files \<Longrightarrow> p \<notin> set dirs"
    using pf pd not_file_and_dir by blast
  have files_ok: "\<forall>p\<in>set files. isfile fs p \<and> file_synced fs (store w') p"
  proof
    fix p assume p: "p \<in> set files"
    with disj pd have "map_of (store w') p = map_of (store w2) p" by simp
    with pf p file_synced_cong [of "store w'" p "store w2" fs]
    show "isfile fs p \<and> file_synced fs (store w') p" by simp
  qed
  have keys: "set (map fst (store w')) \<subseteq> set files \<union> set dirs"
    using pf pd by (auto simp: keys_fold_delete)
  have "\<And>p. p \<in> set files \<Longrightarrow> has_hash ?d1 p = has_hash (store w) p"
    by (rule has_hash_cong) (simp add: map_of_fold_delete)
  then have "{p \<in> set files. has_hash ?d1 p} = {p \<in> set files. has_hash (store w) p}"
    by auto
  with pf pd have cnt: "removed_hash_count c = card {p \<in> set files. has_hash (store w) p}"
    by simp
  from files_ok pd keys cnt pf show ?thesis by simp
qed

lemma update_file_synced:
  assumes "file_synced fs (store w) p"
  shows "update_file fs p c w = (Inr c, w)"
proof -
  from assms obtain old current where
    o: "map_of (store w) p = Some old" "filedata fs p = Inr current"
       "agrees old current" "\<not> contains old ''hash''"
    by (auto simp: file_synced_def split: option.splits sum.splits)
  have "AList.delete ''hash'' (dict_update old current) = old"
    using o(3,4) by (simp add: dict_update_noop contains_def map_of_eq_None_iff)
  moreover have "AList.update p old (store w) = store w"
    using o(1) by (rule update_triv)
  ultimately show ?thesis
    using update_file_existing [OF o(1,2), of c] o(3,4) by simp
qed

lemma update_dir_synced:
  assumes "dir_synced fs (store w) p"
  shows "update_dir fs p c w = (Inr c, w)"
proof -
  from assms obtain old current where
    o: "map_of (store w) p = Some old" "dirdata fs p = Inr current" "agrees old current"
    by (auto simp: dir_synced_def split: option.splits sum.splits)
  have "AList.update p old (store w) = store w"
    using o(1) by (rule update_triv)
  then show ?thesis
    using update_dir_existing [OF o(1,2), of c] o(3) by (simp add: dict_update_noop)
qed

lemma update_files_synced:
  "\<forall>p\<in>set fl. file_synced fs (store w) p \<Longrightarrow> update_files fs fl c w = (Inr c, w)"
  by (induction fl) (auto simp: update_file_synced)

lemma update_dirs_synced:
  "\<forall>p\<in>set dl. dir_synced fs (store w) p \<Longrightarrow> update_dirs fs dl c w = (Inr c, w)"
  by (induction dl) (auto simp: update_dir_synced)

lemma update_run_synced:
  assumes "\<forall>p\<in>set files. file_synced fs (store w) p"
    and "\<forall>p\<in>set dirs. dir_synced fs (store w) p"
    and "set (map fst (store w)) \<subseteq> set files \<union> set dirs"
  shows "update_run fs files dirs w =
     (Inr \<lparr>new_count = 0, changed_count = 0, removed_hash_count = 0, removed_entry_count = 0\<rparr>, w)"
proof -
  have "filter (\<lambda>entry. entry \<notin> set files \<and> entry \<notin> set dirs) (map fst (store w)) = []"
    using assms(3) by (auto simp: filter_empty_conv)
  then show ?thesis
    using assms(1,2) by (simp add: update_run_def update_files_synced update_dirs_synced)
qed

lemma hashed_world_update:
  "update motd_fs [''/etc/motd''] [] hashed_world =
     (Inr True,
      \<lparr>store = [(''/etc/motd'', [(''type'', StrV ''f''), (''uid'', IntV 1000), (''gid'', IntV 1000),
                 (''mode'', StrV ''0o644''), (''size'', IntV 3)])],
       out = [AddedNew 0, UpdatedEntries 0, RemovedHashes 1, RemovedEntries 0], open_files = []\<rparr>)"
  by (simp add: update_def update_run_def update_file_def motd_filedata hashed_world_def contains_def
      getitem_def detect_changed_def dict_update_def update_summary_def print_def)

lemma drifted_world_update:
  "update motd_fs [''/etc/motd''] [] drifted_world =
     (Inr True,
      \<lparr>store = [(''/etc/motd'', [(''type'', StrV ''f''), (''uid'', IntV 1000), (''gid'', IntV 1000),
                 (''mode'', StrV ''0o644''), (''size'', IntV 3)])],
       out = [AddedNew 0, UpdatedEntries 1, RemovedHashes 1, RemovedEntries 0], open_files = []\<rparr>)"
  by (simp add: update_def update_run_def update_file_def motd_filedata drifted_world_def contains_def
      getitem_def detect_changed_def dict_update_def update_summary_def print_def)

section \<open>Facts about the directory invariant\<close>

lemma no_dir_hash_or_size_update:
  assumes "no_dir_hash_or_size data"
    and "map_of props ''type'' = Some (StrV ''d'') \<longrightarrow>
           \<not> contains props ''hash'' \<and> \<not> contains props ''size''"
  shows "no_dir_hash_or_size (AList.update path props data)"
  using assms unfolding no_dir_hash_or_size_def
  by (induction data) (simp_all split: prod.splits)

lemma filedata_not_dir: "filedata fs p = Inr props \<Longrightarrow> map_of props ''type'' \<noteq> Some (StrV ''d'')"
  by (auto simp: filedata_Inr)

lemma dirdata_no_hash_or_size:
  "dirdata fs p = Inr props \<Longrightarrow> \<not> contains props ''hash'' \<and> \<not> contains props ''size''"
  by (auto simp: dirdata_Inr contains_def)

lemma add_files_keeps_invariant:
  "no_dir_hash_or_size (store w) \<Longrightarrow> no_dir_hash_or_size (store (snd (add_files fs fl w)))"
proof (induction fl arbitrary: w)
  case Nil
  then show ?case by simp
next
  case (Cons a fl)
  show ?case
  proof (cases "filedata fs a")
    case (Inl e)
    with Cons.prems show ?thesis by simp
  next
    case (Inr props)
    have "no_dir_hash_or_size (store (w\<lparr>store := AList.update a props (store w)\<rparr>))"
      using Cons.prems filedata_not_dir [OF Inr] by (simp add: no_dir_hash_or_size_update)
    from Cons.IH [OF this] Inr Cons.prems show ?thesis by simp
  qed
qed

lemma add_dirs_keeps_invariant:
  "no_dir_hash_or_size (store w) \<Longrightarrow> no_dir_hash_or_size (store (snd (add_dirs fs dl w)))"
proof (induction dl arbitrary: w)
  case Nil
  then show ?case by simp
next
  case (Cons a dl)
  show ?case
  proof (cases "dirdata fs a")
    case (Inl e)
    with Cons.prems show ?thesis by simp
  next
    case (Inr props)
    have "no_dir_hash_or_size (store (w\<lparr>store := AList.update a props (store w)\<rparr>))"
      using Cons.prems dirdata_no_hash_or_size [OF Inr] by (simp add: no_dir_hash_or_size_update)
    from Cons.IH [OF this] Inr Cons.prems show ?thesis by simp
  qed
qed

lemma count_store: "store (snd (count data files dirs w)) = store w"
proof -
  have tail: "\<And>w1. store w1 = store w \<Longrightarrow>
      store (snd (if truthy files \<or> truthy dirs then
            (case (files, dirs) of
               (Some fl, Some dl) \<Rightarrow> (Inr True, print (PathContains (length fl) (length dl)) w1)
             | _ \<Rightarrow> (Inl TypeError, w1))
          else (Inr True, w1))) = store w"
    by (cases files; cases dirs) simp_all
  show ?thesis
  proof (cases data)
    case None
    then show ?thesis using tail [of w] by (simp add: count_def)
  next
    case (Some dt)
    show ?thesis
    proof (cases "count_entries dt (map fst dt) 0 0")
      case (Inl e)
      with Some show ?thesis by (simp add: count_def)
    next
      case (Inr fd)
      obtain f d where "fd = (f, d)" by (cases fd)
      with Some Inr show ?thesis using tail [of "print (DbContains f d) w"] by (simp add: count_def)
    qed
  qed
qed

lemma add_keeps_directory_invariant:
  assumes "no_dir_hash_or_size (store w)"
  shows "no_dir_hash_or_size (store (snd (add fs files directories w)))"
proof -
  obtain r1 w1 where f: "add_files fs files w = (r1, w1)" by (meson surj_pair)
  obtain r2 w2 where d: "add_dirs fs directories w1 = (r2, w2)" by (meson surj_pair)
  from f assms add_files_keeps_invariant [of w fs files] have i1: "no_dir_hash_or_size (store w1)"
    by simp
  from d i1 add_dirs_keeps_invariant [of w1 fs directories] have i2: "no_dir_hash_or_size (store w2)"
    by simp
  obtain r3 w3 where c: "count (Some (store (print AddSuccess w2))) None None (print AddSuccess w2) = (r3, w3)"
    by (meson surj_pair)
  with count_store [of "Some (store (print AddSuccess w2))" None None "print AddSuccess w2"]
  have i3: "no_dir_hash_or_size (store w3)" using i2 by simp
  show ?thesis
  proof (cases r1)
    case (Inl e)
    with f i1 show ?thesis by (simp add: add_def)
  next
    case r1: (Inr fl1)
    show ?thesis
    proof (cases fl1)
      case (Return b)
      with f r1 i1 show ?thesis by (simp add: add_def)
    next
      case n1: (Next u)
      show ?thesis
      proof (cases r2)
        case (Inl e)
        with f r1 n1 d i2 show ?thesis by (simp add: add_def)
      next
        case r2: (Inr fl2)
        show ?thesis
        proof (cases fl2)
          case (Return b)
          with f r1 n1 d r2 i2 show ?thesis by (simp add: add_def)
        next
          case (Next u2)
          with f r1 n1 d r2 c i3 show ?thesis
            by (cases r3) (simp_all add: add_def Let_def)
        qed
      qed
    qed
  qed
qed

lemma verify_keeps_directory_invariant:
  assumes "no_dir_hash_or_size (store w)"
  shows "no_dir_hash_or_size (store (snd (verify hexdigest fs files directories w)))"
proof -
  obtain x w' where v: "verify hexdigest fs files directories w = (x, w')"
    by (meson surj_pair)
  from verify_store [OF v] have "store w' = store w" .
  with v assms show ?thesis by simp
qed

section \<open>Facts about the stored mode\<close>

text \<open>
  What \<^verbatim>\<open>filedata\<close> and \<^verbatim>\<open>dirdata\<close> store under \<^verbatim>\<open>mode\<close>: the string \<^verbatim>\<open>0o\<close> followed by the
  octal digits of \<^verbatim>\<open>st_mode & 0o7777\<close>, that is \<^verbatim>\<open>st_mode\<close> modulo 4096; the digits denote
  that number. For a file with mode \<^verbatim>\<open>0o100644\<close> it is \<^verbatim>\<open>0o644\<close>.
\<close>

lemma stored_mode_is_octal_string:
  "filedata fs p = Inr props \<or> dirdata fs p = Inr props \<Longrightarrow>
   \<exists>stats. fs p = Some stats \<and>
     map_of props ''mode'' = Some (StrV (''0o'' @ octdigits (nat (st_mode stats mod 4096)))) \<and>
     S_IMODE (st_mode stats) = st_mode stats mod 4096 \<and>
     octal_value (octdigits (nat (st_mode stats mod 4096))) = nat (st_mode stats mod 4096)"
  by (auto simp: filedata_Inr dirdata_Inr oct_def S_IMODE_mod octal_value_octdigits)

lemma stored_mode_of_motd:
  "filedata motd_fs ''/etc/motd'' =
     Inr [(''type'', StrV ''f''), (''uid'', IntV 1000), (''gid'', IntV 1000),
          (''mode'', StrV ''0o644''), (''size'', IntV 3)] \<and>
   StrV ''0o644'' = StrV (''0o'' @ octdigits (nat (33188 mod 4096))) \<and>
   S_IMODE 33188 = 33188 mod 4096 \<and>
   octal_value (octdigits (nat (33188 mod 4096))) = nat (33188 mod 4096)"
proof -
  from stored_mode_is_octal_string [of motd_fs "''/etc/motd''"
      "[(''type'', StrV ''f''), (''uid'', IntV 1000), (''gid'', IntV 1000),
        (''mode'', StrV ''0o644''), (''size'', IntV 3)]"] motd_filedata
  obtain stats where s: "motd_fs ''/etc/motd'' = Some stats"
    "map_of [(''type'', StrV ''f''), (''uid'', IntV 1000), (''gid'', IntV 1000),
        (''mode'', StrV ''0o644''), (''size'', IntV 3)] ''mode''
       = Some (StrV (''0o'' @ octdigits (nat (st_mode stats mod 4096))))"
    "S_IMODE (st_mode stats) = st_mode stats mod 4096"
    "octal_value (octdigits (nat (st_mode stats mod 4096))) = nat (st_mode stats mod 4096)"
    by blast
  from s(1) have "st_mode stats = 33188"
    by (auto simp: motd_fs_def file_node_def)
  with s motd_filedata show ?thesis by simp
qed

section \<open>The claims\<close>

text \<open>
  C1 at two inputs that satisfy its hypotheses. A path tracked as a hashed file is now a
  directory: \<^verbatim>\<open>update\<close> overwrites its type with \<^verbatim>\<open>d\<close> and keeps \<^verbatim>\<open>size\<close> and \<^verbatim>\<open>hash\<close>.
  A path tracked as a directory is now a regular file: \<^verbatim>\<open>cksum\<close> adds a \<^verbatim>\<open>hash\<close> to the
  entry of type \<^verbatim>\<open>d\<close>. In both runs the invariant holds before and fails after.
  (\<^verbatim>\<open>add\<close> and \<^verbatim>\<open>verify\<close> keep the invariant: \<open>add_keeps_directory_invariant\<close>,
  \<open>verify_keeps_directory_invariant\<close>.)
\<close>

theorem update_and_cksum_break_directory_invariant:
  "no_dir_hash_or_size (store tracked_file_world) \<and>
   isdir (\<lambda>p. if p = ''/srv/data'' then Some dir_node else None) ''/srv/data'' \<and>
   update (\<lambda>p. if p = ''/srv/data'' then Some dir_node else None) [] [''/srv/data''] tracked_file_world
     = (Inr True,
        \<lparr>store = [(''/srv/data'', [(''type'', StrV ''d''), (''uid'', IntV 1000), (''gid'', IntV 1000),
                 (''mode'', StrV ''0o755''), (''size'', IntV 3), (''hash'', StrV ''abc'')])],
         out = [AddedNew 0, UpdatedEntries 1, RemovedHashes 0, RemovedEntries 0], open_files = []\<rparr>) \<and>
   \<not> no_dir_hash_or_size (store (snd (update (\<lambda>p. if p = ''/srv/data'' then Some dir_node else None)
        [] [''/srv/data''] tracked_file_world))) \<and>
   no_dir_hash_or_size (store tracked_dir_world) \<and>
   isfile (\<lambda>p. if p = ''/srv/data'' then Some file_node else None) ''/srv/data'' \<and>
   cksum toy_hexdigest (\<lambda>p. if p = ''/srv/data'' then Some file_node else None) [''/srv/data''] [] tracked_dir_world
     = (Inr True,
        \<lparr>store = [(''/srv/data'', [(''type'', StrV ''d''), (''uid'', IntV 1000), (''gid'', IntV 1000),
                 (''mode'', StrV ''0o755''), (''hash'', StrV ''abc'')])],
         out = [AddedHashes 1], open_files = []\<rparr>) \<and>
   \<not> no_dir_hash_or_size (store (snd (cksum toy_hexdigest
        (\<lambda>p. if p = ''/srv/data'' then Some file_node else None) [''/srv/data''] [] tracked_dir_world)))"
proof -
  have sha: "sha256file toy_hexdigest (\<lambda>p. if p = ''/srv/data'' then Some file_node else None) ''/srv/data'' tracked_dir_world
     = (Inr ''abc'', tracked_dir_world)"
    by (simp add: sha256file_def isfile_def file_node_def fread_def BUFSIZE_def Let_def
        sha256_loop_empty sha256_loop.simps [of _ _ _ "''abc''"] toy_hexdigest_def tracked_dir_world_def)
  have dd: "dirdata (\<lambda>p. if p = ''/srv/data'' then Some dir_node else None) ''/srv/data''
     = Inr [(''type'', StrV ''d''), (''uid'', IntV 1000), (''gid'', IntV 1000), (''mode'', StrV ''0o755'')]"
    by (simp add: dirdata_def isdir_def dir_node_def S_IMODE_def oct_def octdigits.simps octdigit_def)
  have u: "update (\<lambda>p. if p = ''/srv/data'' then Some dir_node else None) [] [''/srv/data''] tracked_file_world
     = (Inr True,
        \<lparr>store = [(''/srv/data'', [(''type'', StrV ''d''), (''uid'', IntV 1000), (''gid'', IntV 1000),
                 (''mode'', StrV ''0o755''), (''size'', IntV 3), (''hash'', StrV ''abc'')])],
         out = [AddedNew 0, UpdatedEntries 1, RemovedHashes 0, RemovedEntries 0], open_files = []\<rparr>)"
    by (simp add: update_def update_run_def update_dir_def dd tracked_file_world_def contains_def
        getitem_def detect_changed_def dict_update_def update_summary_def print_def)
  have c: "cksum toy_hexdigest (\<lambda>p. if p = ''/srv/data'' then Some file_node else None) [''/srv/data''] [] tracked_dir_world
     = (Inr True,
        \<lparr>store = [(''/srv/data'', [(''type'', StrV ''d''), (''uid'', IntV 1000), (''gid'', IntV 1000),
                 (''mode'', StrV ''0o755''), (''hash'', StrV ''abc'')])],
         out = [AddedHashes 1], open_files = []\<rparr>)"
    using sha by (simp add: cksum_def tracked_dir_world_def contains_def getitem_def print_def)
  show ?thesis
    unfolding u c
    by (simp add: no_dir_hash_or_size_def tracked_file_world_def tracked_dir_world_def contains_def
        isdir_def isfile_def dir_node_def file_node_def)
qed

text \<open>
  C2. \<^verbatim>\<open>verify\<close> never mutates the store: whatever it returns or raises, the dictionary
  afterwards is the dictionary before the call.
\<close>

theorem verify_never_mutates_store:
  "store (snd (verify hexdigest fs files directories w)) = store w"
  using verify_store [of hexdigest fs files directories w]
  by (cases "verify hexdigest fs files directories w") simp

text \<open>
  An instance: \<^verbatim>\<open>verify\<close> of a file whose owner, mode and content differ from the record.
\<close>

theorem verify_never_mutates_store_witness:
  "store (snd (verify toy_hexdigest motd_fs [''/etc/motd''] [] drifted_world)) = store drifted_world"
  by (rule verify_never_mutates_store)

text \<open>
  C3. \<^verbatim>\<open>add\<close> processes the file paths and then the directory paths in order (every file
  path a regular file, every directory path a directory). If \<open>p\<close> is the first path that
  is already a key, in the store or from an earlier occurrence in the same call, \<^verbatim>\<open>add\<close>
  returns \<^verbatim>\<open>False\<close> and prints the message naming \<open>p\<close>; the paths \<open>pre\<close> before it have
  been appended with freshly computed entries and stay, and nothing else has changed: no
  entry for \<open>p\<close> or a later path is inserted. If no path conflicts (and every recorded
  entry has a \<^verbatim>\<open>type\<close>, which \<^verbatim>\<open>count\<close> reads), \<^verbatim>\<open>add\<close> appends a fresh entry for every
  path and returns \<^verbatim>\<open>True\<close>.
\<close>

theorem add_stops_at_first_conflict:
  assumes "\<forall>q\<in>set files. isfile fs q" and "\<forall>q\<in>set directories. isdir fs q"
  shows
  "(files @ directories = pre @ p # post \<and> distinct pre \<and>
    (\<forall>q\<in>set pre. \<not> contains (store w) q) \<and> (contains (store w) p \<or> p \<in> set pre)
    \<longrightarrow> (\<exists>w'. add fs files directories w = (Inr False, w') \<and>
           out w' = out w @ [if length pre < length files then FileAlready p else DirAlready p,
                             UseCheckOrUpdate] \<and>
           map fst (store w') = map fst (store w) @ pre \<and>
           (\<forall>q. map_of (store w') q =
              (if q \<in> set pre then fresh_entry fs q else map_of (store w) q)))) \<and>
   (distinct (files @ directories) \<and> (\<forall>q\<in>set (files @ directories). \<not> contains (store w) q) \<and>
    (\<forall>(q, props)\<in>set (store w). contains props ''type'')
    \<longrightarrow> (\<exists>w' f d. add fs files directories w = (Inr True, w') \<and>
           out w' = out w @ [AddSuccess, DbContains f d] \<and>
           map fst (store w') = map fst (store w) @ files @ directories \<and>
           (\<forall>q. map_of (store w') q =
              (if q \<in> set (files @ directories) then fresh_entry fs q else map_of (store w) q))))"
proof (intro conjI impI)
  assume a: "files @ directories = pre @ p # post \<and> distinct pre \<and>
    (\<forall>q\<in>set pre. \<not> contains (store w) q) \<and> (contains (store w) p \<or> p \<in> set pre)"
  then have eq: "files @ directories = pre @ p # post" by simp
  from eq show "\<exists>w'. add fs files directories w = (Inr False, w') \<and>
           out w' = out w @ [if length pre < length files then FileAlready p else DirAlready p,
                             UseCheckOrUpdate] \<and>
           map fst (store w') = map fst (store w) @ pre \<and>
           (\<forall>q. map_of (store w') q =
              (if q \<in> set pre then fresh_entry fs q else map_of (store w) q))"
  proof (cases rule: conflict_position)
    case (in_files post1)
    with assms(1) a have pre: "\<forall>q\<in>set pre. \<not> contains (store w) q \<and> isfile fs q"
      by auto
    from a have "distinct pre" by simp
    from add_files_prefix [OF this pre, of "p # post1"] obtain w1 where
      w1: "add_files fs (pre @ p # post1) w = add_files fs (p # post1) w1"
        "out w1 = out w" "open_files w1 = open_files w"
        "map fst (store w1) = map fst (store w) @ pre"
        "\<forall>q. map_of (store w1) q = (if q \<in> set pre then fresh_entry fs q else map_of (store w) q)"
      by blast
    from a w1(4) have "contains (store w1) p"
      by (auto simp: contains_keys)
    from add_files_conflict [OF this, of fs post1] w1(1) in_files(1)
    have "add fs files directories w =
            (Inr False, w1\<lparr>out := out w1 @ [FileAlready p, UseCheckOrUpdate]\<rparr>)"
      by (simp add: add_def)
    with w1 in_files(2) show ?thesis
      by (intro exI [of _ "w1\<lparr>out := out w1 @ [FileAlready p, UseCheckOrUpdate]\<rparr>"]) simp
  next
    case (in_dirs pre2)
    from a in_dirs(1) have d: "distinct files" "distinct pre2" "set files \<inter> set pre2 = {}"
      by auto
    from assms(1) a in_dirs(1) have f: "\<forall>q\<in>set files. \<not> contains (store w) q \<and> isfile fs q"
      by auto
    from add_files_prefix [OF d(1) f, of "[]"] obtain w1 where
      w1: "add_files fs files w = (Inr (Next ()), w1)"
        "out w1 = out w" "open_files w1 = open_files w"
        "map fst (store w1) = map fst (store w) @ files"
        "\<forall>q. map_of (store w1) q = (if q \<in> set files then fresh_entry fs q else map_of (store w) q)"
      by auto
    from assms(2) a in_dirs(1,2) d(3) w1(4)
    have g: "\<forall>q\<in>set pre2. \<not> contains (store w1) q \<and> isdir fs q"
      by (auto simp: contains_keys)
    from add_dirs_prefix [OF d(2) g, of "p # post"] obtain w2 where
      w2: "add_dirs fs (pre2 @ p # post) w1 = add_dirs fs (p # post) w2"
        "out w2 = out w1" "open_files w2 = open_files w1"
        "map fst (store w2) = map fst (store w1) @ pre2"
        "\<forall>q. map_of (store w2) q = (if q \<in> set pre2 then fresh_entry fs q else map_of (store w1) q)"
      by blast
    from a in_dirs(1) w1(4) w2(4) have "contains (store w2) p"
      by (auto simp: contains_keys)
    from add_dirs_conflict [OF this, of fs post] w1(1) w2(1) in_dirs(2)
    have "add fs files directories w =
            (Inr False, w2\<lparr>out := out w2 @ [DirAlready p, UseCheckOrUpdate]\<rparr>)"
      by (simp add: add_def)
    moreover have "\<forall>q. map_of (store w2) q =
              (if q \<in> set pre then fresh_entry fs q else map_of (store w) q)"
      using w1(5) w2(5) in_dirs(1) by auto
    ultimately show ?thesis
      using w1 w2 in_dirs(1,3)
      by (intro exI [of _ "w2\<lparr>out := out w2 @ [DirAlready p, UseCheckOrUpdate]\<rparr>"]) simp
  qed
next
  assume b: "distinct (files @ directories) \<and> (\<forall>q\<in>set (files @ directories). \<not> contains (store w) q) \<and>
    (\<forall>(q, props)\<in>set (store w). contains props ''type'')"
  then have d: "distinct files" "distinct directories" "set files \<inter> set directories = {}"
    by auto
  from assms(1) b have f: "\<forall>q\<in>set files. \<not> contains (store w) q \<and> isfile fs q"
    by auto
  from add_files_prefix [OF d(1) f, of "[]"] obtain w1 where
    w1: "add_files fs files w = (Inr (Next ()), w1)"
      "out w1 = out w" "open_files w1 = open_files w"
      "map fst (store w1) = map fst (store w) @ files"
      "\<forall>q. map_of (store w1) q = (if q \<in> set files then fresh_entry fs q else map_of (store w) q)"
    by auto
  from assms(2) b d(3) w1(4)
  have g: "\<forall>q\<in>set directories. \<not> contains (store w1) q \<and> isdir fs q"
    by (auto simp: contains_keys)
  from add_dirs_prefix [OF d(2) g, of "[]"] obtain w2 where
    w2: "add_dirs fs directories w1 = (Inr (Next ()), w2)"
      "out w2 = out w1" "open_files w2 = open_files w1"
      "map fst (store w2) = map fst (store w1) @ directories"
      "\<forall>q. map_of (store w2) q = (if q \<in> set directories then fresh_entry fs q else map_of (store w1) q)"
    by auto
  have m: "\<forall>q. map_of (store w2) q =
              (if q \<in> set (files @ directories) then fresh_entry fs q else map_of (store w) q)"
    using w1(5) w2(5) by auto
  have typed: "\<forall>k\<in>set (map fst (store (print AddSuccess w2))).
          \<exists>props. map_of (store (print AddSuccess w2)) k = Some props \<and> contains props ''type''"
  proof
    fix k assume k: "k \<in> set (map fst (store (print AddSuccess w2)))"
    then obtain props where p: "map_of (store w2) k = Some props"
      by (cases "map_of (store w2) k") (auto simp: map_of_eq_None_iff)
    have "contains props ''type''"
    proof (cases "k \<in> set (files @ directories)")
      case True
      with m p have "fresh_entry fs k = Some props" by simp
      then show ?thesis by (rule fresh_entry_typed)
    next
      case False
      with m p have "map_of (store w) k = Some props" by simp
      then have "(k, props) \<in> set (store w)" by (rule map_of_SomeD)
      with b show ?thesis by auto
    qed
    with p show "\<exists>props. map_of (store (print AddSuccess w2)) k = Some props \<and> contains props ''type''"
      by simp
  qed
  from count_ok [OF typed, of "print AddSuccess w2"] obtain f' d' where
    c: "count (Some (store (print AddSuccess w2))) None None (print AddSuccess w2)
          = (Inr True, print (DbContains f' d') (print AddSuccess w2))"
    by blast
  have "add fs files directories w = (Inr True, print (DbContains f' d') (print AddSuccess w2))"
    using w1(1) w2(1) c by (simp add: add_def Let_def)
  with w1 w2 m show "\<exists>w' f d. add fs files directories w = (Inr True, w') \<and>
           out w' = out w @ [AddSuccess, DbContains f d] \<and>
           map fst (store w') = map fst (store w) @ files @ directories \<and>
           (\<forall>q. map_of (store w') q =
              (if q \<in> set (files @ directories) then fresh_entry fs q else map_of (store w) q))"
    by (intro exI [of _ "print (DbContains f' d') (print AddSuccess w2)"] exI [of _ f'] exI [of _ d']) simp
qed

text \<open>
  Both cases on a database that tracks \<^verbatim>\<open>/etc/motd\<close>: adding \<^verbatim>\<open>/etc/passwd\<close> and
  \<^verbatim>\<open>/etc/motd\<close> stops at the second path with the first one inserted; adding
  \<^verbatim>\<open>/etc/passwd\<close> and the directory \<^verbatim>\<open>/etc\<close> succeeds.
\<close>

theorem add_stops_at_first_conflict_witness:
  "(\<exists>w'. add etc_fs [''/etc/passwd'', ''/etc/motd''] [''/etc''] unhashed_world = (Inr False, w') \<and>
         out w' = [FileAlready ''/etc/motd'', UseCheckOrUpdate] \<and>
         map fst (store w') = [''/etc/motd'', ''/etc/passwd'']) \<and>
   (\<exists>w' f d. add etc_fs [''/etc/passwd''] [''/etc''] unhashed_world = (Inr True, w') \<and>
         out w' = [AddSuccess, DbContains f d] \<and>
         map fst (store w') = [''/etc/motd'', ''/etc/passwd'', ''/etc''])"
proof -
  have f1: "\<forall>q\<in>set [''/etc/passwd'', ''/etc/motd'']. isfile etc_fs q"
    by (simp add: isfile_def etc_fs_def file_node_def)
  have f2: "\<forall>q\<in>set [''/etc/passwd'']. isfile etc_fs q"
    by (simp add: isfile_def etc_fs_def file_node_def)
  have d: "\<forall>q\<in>set [''/etc'']. isdir etc_fs q"
    by (simp add: isdir_def etc_fs_def dir_node_def)
  have h1: "[''/etc/passwd'', ''/etc/motd''] @ [''/etc''] = [''/etc/passwd''] @ ''/etc/motd'' # [''/etc''] \<and>
      distinct [''/etc/passwd''] \<and>
      (\<forall>q\<in>set [''/etc/passwd'']. \<not> contains (store unhashed_world) q) \<and>
      (contains (store unhashed_world) ''/etc/motd'' \<or> ''/etc/motd'' \<in> set [''/etc/passwd''])"
    by (simp add: contains_def unhashed_world_def)
  have h2: "distinct ([''/etc/passwd''] @ [''/etc'']) \<and>
      (\<forall>q\<in>set ([''/etc/passwd''] @ [''/etc'']). \<not> contains (store unhashed_world) q) \<and>
      (\<forall>(q, props)\<in>set (store unhashed_world). contains props ''type'')"
    by (simp add: contains_def unhashed_world_def)
  from add_stops_at_first_conflict [OF f1 d, of "[''/etc/passwd'']" "''/etc/motd''" "[''/etc'']"
      unhashed_world] h1
  have c1: "\<exists>w'. add etc_fs [''/etc/passwd'', ''/etc/motd''] [''/etc''] unhashed_world = (Inr False, w') \<and>
         out w' = out unhashed_world @
            [if length [''/etc/passwd''] < length [''/etc/passwd'', ''/etc/motd'']
             then FileAlready ''/etc/motd'' else DirAlready ''/etc/motd'', UseCheckOrUpdate] \<and>
         map fst (store w') = map fst (store unhashed_world) @ [''/etc/passwd'']"
    by blast
  from add_stops_at_first_conflict [OF f2 d, of "[]" "''/etc/motd''" "[]" unhashed_world] h2
  have c2: "\<exists>w' f d. add etc_fs [''/etc/passwd''] [''/etc''] unhashed_world = (Inr True, w') \<and>
         out w' = out unhashed_world @ [AddSuccess, DbContains f d] \<and>
         map fst (store w') = map fst (store unhashed_world) @ [''/etc/passwd''] @ [''/etc'']"
    by blast
  from c1 c2 show ?thesis
    by (simp add: unhashed_world_def)
qed

text \<open>
  C4. \<^verbatim>\<open>cksum\<close> processes the file paths in order. When the paths \<open>pre\<close> before \<open>p\<close> are
  tracked, not yet hashed and readable, and \<open>p\<close> is not a key of the store or already has a
  hash (from the store or from an earlier occurrence in the same call), \<^verbatim>\<open>cksum\<close> returns
  \<^verbatim>\<open>False\<close> with the message for \<open>p\<close>; the paths of \<open>pre\<close> have their hashes and every
  other entry, that of \<open>p\<close> included, is as it was. In particular, hashing one tracked path
  twice succeeds the first time and fails the second time with the hash-exists message,
  leaving the store, and so the hash of the first call, unchanged.
\<close>

theorem cksum_stops_at_first_failure:
  "(files = pre @ p # post \<and> distinct pre \<and>
    (\<forall>q\<in>set pre. tracked_unhashed (store w) q \<and> file_digest hexdigest fs q = Inr (h q)) \<and>
    (\<not> contains (store w) p \<or> p \<in> set pre \<or> has_hash (store w) p)
    \<longrightarrow> (\<exists>w'. cksum hexdigest fs files directories w = (Inr False, w') \<and>
           out w' = out w @ (if contains (store w) p then [ErrHashExists p, UseUpdateReset]
                             else [ErrNotInDb p, UseAddFirst]) \<and>
           (\<forall>q. map_of (store w') q =
              (if q \<in> set pre
               then map_option (AList.update ''hash'' (StrV (h q))) (map_of (store w) q)
               else map_of (store w) q)))) \<and>
   (tracked_unhashed (store w) p \<and> file_digest hexdigest fs p = Inr h0
    \<longrightarrow> (\<exists>w1 w2 props.
           cksum hexdigest fs [p] directories w = (Inr True, w1) \<and>
           map_of (store w1) p = Some props \<and> map_of props ''hash'' = Some (StrV h0) \<and>
           cksum hexdigest fs [p] directories w1 = (Inr False, w2) \<and>
           out w2 = out w1 @ [ErrHashExists p, UseUpdateReset] \<and>
           store w2 = store w1))"
proof (intro conjI impI)
  assume a: "files = pre @ p # post \<and> distinct pre \<and>
    (\<forall>q\<in>set pre. tracked_unhashed (store w) q \<and> file_digest hexdigest fs q = Inr (h q)) \<and>
    (\<not> contains (store w) p \<or> p \<in> set pre \<or> has_hash (store w) p)"
  then obtain w1 where
    w1: "cksum_files hexdigest fs (pre @ p # post) 0 w = cksum_files hexdigest fs (p # post) (0 + length pre) w1"
      "out w1 = out w" "open_files w1 = open_files w"
      "\<forall>q. map_of (store w1) q =
              (if q \<in> set pre then map_option (AList.update ''hash'' (StrV (h q))) (map_of (store w) q)
               else map_of (store w) q)"
    using cksum_files_prefix [of pre w hexdigest fs h "p # post" 0] by blast
  have cont: "contains (store w1) p = contains (store w) p"
    using w1(4) by (simp add: contains_def)
  have nt: "\<not> tracked_unhashed (store w1) p"
  proof (cases "p \<in> set pre")
    case True
    with a have "tracked_unhashed (store w) p" by blast
    with True w1(4) show ?thesis
      by (auto simp: tracked_unhashed_def contains_def update_conv' split: option.splits)
  next
    case False
    with a w1(4) show ?thesis
      by (auto simp: tracked_unhashed_def has_hash_def contains_def split: option.splits)
  qed
  let ?w' = "w1\<lparr>out := out w1 @ (if contains (store w1) p then [ErrHashExists p, UseUpdateReset]
                          else [ErrNotInDb p, UseAddFirst])\<rparr>"
  have "cksum hexdigest fs files directories w = (Inr False, ?w')"
    using a w1(1) cksum_files_fail [OF nt, of hexdigest fs post "0 + length pre"]
    by (simp add: cksum_def)
  with w1 cont show "\<exists>w'. cksum hexdigest fs files directories w = (Inr False, w') \<and>
           out w' = out w @ (if contains (store w) p then [ErrHashExists p, UseUpdateReset]
                             else [ErrNotInDb p, UseAddFirst]) \<and>
           (\<forall>q. map_of (store w') q =
              (if q \<in> set pre
               then map_option (AList.update ''hash'' (StrV (h q))) (map_of (store w) q)
               else map_of (store w) q))"
    by (intro exI [of _ ?w']) simp
next
  assume b: "tracked_unhashed (store w) p \<and> file_digest hexdigest fs p = Inr h0"
  let ?w1 = "print (AddedHashes 1)
               (w\<lparr>store := AList.map_entry p (AList.update ''hash'' (StrV h0)) (store w)\<rparr>)"
  from b obtain props0 where p0: "map_of (store w) p = Some props0"
    by (auto simp: tracked_unhashed_def split: option.splits)
  have first: "cksum hexdigest fs [p] directories w = (Inr True, ?w1)"
    using b cksum_files_step [of w p hexdigest fs h0 "[]" 0] by (simp add: cksum_def)
  have m: "map_of (store ?w1) p = Some (AList.update ''hash'' (StrV h0) props0)"
    using p0 by (simp add: map_of_map_entry)
  have hv: "map_of (AList.update ''hash'' (StrV h0) props0) ''hash'' = Some (StrV h0)"
    by (simp add: update_conv')
  have nt: "\<not> tracked_unhashed (store ?w1) p"
    using m hv by (simp add: tracked_unhashed_def contains_def)
  have second: "cksum hexdigest fs [p] directories ?w1 =
     (Inr False, ?w1\<lparr>out := out ?w1 @ [ErrHashExists p, UseUpdateReset]\<rparr>)"
    using cksum_files_fail [OF nt, of hexdigest fs "[]" 0] m
    by (simp add: cksum_def contains_def)
  show "\<exists>w1 w2 props.
           cksum hexdigest fs [p] directories w = (Inr True, w1) \<and>
           map_of (store w1) p = Some props \<and> map_of props ''hash'' = Some (StrV h0) \<and>
           cksum hexdigest fs [p] directories w1 = (Inr False, w2) \<and>
           out w2 = out w1 @ [ErrHashExists p, UseUpdateReset] \<and>
           store w2 = store w1"
    using first m hv second
    by (intro exI [of _ ?w1] exI [of _ "?w1\<lparr>out := out ?w1 @ [ErrHashExists p, UseUpdateReset]\<rparr>"]
        exI [of _ "AList.update ''hash'' (StrV h0) props0"]) simp
qed

text \<open>
  Both parts on a database that tracks \<^verbatim>\<open>/etc/motd\<close> without a hash: hashing
  \<^verbatim>\<open>/etc/motd\<close> and the untracked \<^verbatim>\<open>/etc/passwd\<close> fails at the second path with the first
  one hashed; hashing \<^verbatim>\<open>/etc/motd\<close> twice fails the second time.
\<close>

theorem cksum_stops_at_first_failure_witness:
  "(\<exists>w'. cksum toy_hexdigest motd_fs [''/etc/motd'', ''/etc/passwd''] [] unhashed_world = (Inr False, w') \<and>
         out w' = [ErrNotInDb ''/etc/passwd'', UseAddFirst] \<and>
         map_of (store w') ''/etc/motd'' =
           Some [(''type'', StrV ''f''), (''uid'', IntV 1000), (''gid'', IntV 1000),
                 (''mode'', StrV ''0o644''), (''size'', IntV 3), (''hash'', StrV ''abc'')]) \<and>
   (\<exists>w1 w2 props.
         cksum toy_hexdigest motd_fs [''/etc/motd''] [] unhashed_world = (Inr True, w1) \<and>
         map_of (store w1) ''/etc/motd'' = Some props \<and> map_of props ''hash'' = Some (StrV ''abc'') \<and>
         cksum toy_hexdigest motd_fs [''/etc/motd''] [] w1 = (Inr False, w2) \<and>
         out w2 = out w1 @ [ErrHashExists ''/etc/motd'', UseUpdateReset] \<and>
         store w2 = store w1)"
proof -
  have t: "tracked_unhashed (store unhashed_world) ''/etc/motd''"
    by (simp add: tracked_unhashed_def unhashed_world_def contains_def)
  have n: "\<not> contains (store unhashed_world) ''/etc/passwd''"
    by (simp add: unhashed_world_def contains_def)
  have h1: "[''/etc/motd'', ''/etc/passwd''] = [''/etc/motd''] @ ''/etc/passwd'' # [] \<and>
      distinct [''/etc/motd''] \<and>
      (\<forall>q\<in>set [''/etc/motd''].
          tracked_unhashed (store unhashed_world) q \<and>
          file_digest toy_hexdigest motd_fs q = Inr ((\<lambda>q. ''abc'') q)) \<and>
      (\<not> contains (store unhashed_world) ''/etc/passwd'' \<or> ''/etc/passwd'' \<in> set [''/etc/motd''] \<or>
       has_hash (store unhashed_world) ''/etc/passwd'')"
    using t n motd_digest by simp
  have h2: "tracked_unhashed (store unhashed_world) ''/etc/motd'' \<and>
      file_digest toy_hexdigest motd_fs ''/etc/motd'' = Inr ''abc''"
    using t motd_digest by simp
  from cksum_stops_at_first_failure [of "[''/etc/motd'', ''/etc/passwd'']" "[''/etc/motd'']"
      "''/etc/passwd''" "[]" unhashed_world toy_hexdigest motd_fs "\<lambda>q. ''abc''" "[]" "''abc''"] h1
  have c1: "\<exists>w'. cksum toy_hexdigest motd_fs [''/etc/motd'', ''/etc/passwd''] [] unhashed_world = (Inr False, w') \<and>
         out w' = out unhashed_world @ (if contains (store unhashed_world) ''/etc/passwd''
             then [ErrHashExists ''/etc/passwd'', UseUpdateReset]
             else [ErrNotInDb ''/etc/passwd'', UseAddFirst]) \<and>
         (\<forall>q. map_of (store w') q =
              (if q \<in> set [''/etc/motd'']
               then map_option (AList.update ''hash'' (StrV ''abc'')) (map_of (store unhashed_world) q)
               else map_of (store unhashed_world) q))"
    by blast
  from cksum_stops_at_first_failure [of "[''/etc/motd'']" "[]"
      "''/etc/motd''" "[]" unhashed_world toy_hexdigest motd_fs "\<lambda>q. ''abc''" "[]" "''abc''"] h2
  have c2: "\<exists>w1 w2 props.
         cksum toy_hexdigest motd_fs [''/etc/motd''] [] unhashed_world = (Inr True, w1) \<and>
         map_of (store w1) ''/etc/motd'' = Some props \<and> map_of props ''hash'' = Some (StrV ''abc'') \<and>
         cksum toy_hexdigest motd_fs [''/etc/motd''] [] w1 = (Inr False, w2) \<and>
         out w2 = out w1 @ [ErrHashExists ''/etc/motd'', UseUpdateReset] \<and>
         store w2 = store w1"
    by blast
  from c1 obtain w' where w': "cksum toy_hexdigest motd_fs [''/etc/motd'', ''/etc/passwd''] [] unhashed_world = (Inr False, w')"
     "out w' = out unhashed_world @ (if contains (store unhashed_world) ''/etc/passwd''
             then [ErrHashExists ''/etc/passwd'', UseUpdateReset]
             else [ErrNotInDb ''/etc/passwd'', UseAddFirst])"
     "\<forall>q. map_of (store w') q =
              (if q \<in> set [''/etc/motd'']
               then map_option (AList.update ''hash'' (StrV ''abc'')) (map_of (store unhashed_world) q)
               else map_of (store unhashed_world) q)"
    by blast
  from w'(2) n have o: "out w' = [ErrNotInDb ''/etc/passwd'', UseAddFirst]"
    by (simp add: unhashed_world_def)
  from w'(3) have m: "map_of (store w') ''/etc/motd'' =
           Some [(''type'', StrV ''f''), (''uid'', IntV 1000), (''gid'', IntV 1000),
                 (''mode'', StrV ''0o644''), (''size'', IntV 3), (''hash'', StrV ''abc'')]"
    by (simp add: unhashed_world_def)
  from w'(1) o m c2 show ?thesis by blast
qed

text \<open>
  C5. When \<^verbatim>\<open>update\<close> returns, no path of the files list has a hash, and the removed-hash
  counter it prints is the number of file paths that were hashed in the store before the
  call. One iteration of the files pass on a path already in the store removes the hash
  whether or not an attribute differs: the removed-hash counter grows by one exactly when
  the entry had a hash, while the changed counter grows only when the recorded entry
  disagrees with the current attributes.
\<close>

theorem update_clears_hashes_of_live_files:
  "(update fs files directories w = (Inr True, w') \<longrightarrow>
      (\<forall>q\<in>set files. \<not> has_hash (store w') q) \<and>
      (\<exists>a u r. out w' = out w @
          [AddedNew a, UpdatedEntries u,
           RemovedHashes (card {q \<in> set files. has_hash (store w) q}), RemovedEntries r])) \<and>
   (map_of (store w) p = Some old \<and> filedata fs p = Inr current \<longrightarrow>
      (\<exists>c1 w1. update_file fs p c w = (Inr c1, w1) \<and> \<not> has_hash (store w1) p \<and>
          removed_hash_count c1 = removed_hash_count c + (if contains old ''hash'' then 1 else 0) \<and>
          changed_count c1 = changed_count c + (if agrees old current then 0 else 1)))"
proof (rule conjI [OF impI impI])
  assume "update fs files directories w = (Inr True, w')"
  from update_Inr [OF this] obtain c3 w3 where
    r: "update_run fs files directories w = (Inr c3, w3)" and
    w': "w' = fold print (update_summary c3) w3"
    by blast
  note p = update_run_post [OF r]
  from p w' have "\<forall>q\<in>set files. \<not> has_hash (store w') q"
    by (auto dest: file_synced_no_hash)
  moreover from p w' have "out w' = out w @
          [AddedNew (new_count c3), UpdatedEntries (changed_count c3),
           RemovedHashes (card {q \<in> set files. has_hash (store w) q}),
           RemovedEntries (removed_entry_count c3)]"
    by (simp add: update_summary_def)
  ultimately show "(\<forall>q\<in>set files. \<not> has_hash (store w') q) \<and>
      (\<exists>a u r. out w' = out w @
          [AddedNew a, UpdatedEntries u,
           RemovedHashes (card {q \<in> set files. has_hash (store w) q}), RemovedEntries r])"
    by blast
next
  assume a: "map_of (store w) p = Some old \<and> filedata fs p = Inr current"
  then have e: "update_file fs p c w =
     (Inr (c\<lparr>removed_hash_count := removed_hash_count c + (if contains old ''hash'' then 1 else 0),
             changed_count := changed_count c + (if agrees old current then 0 else 1)\<rparr>),
      w\<lparr>store := AList.update p (AList.delete ''hash'' (dict_update old current)) (store w)\<rparr>)"
    using update_file_existing [of w p old fs current c] by simp
  from update_file_post [OF e] have "\<not> has_hash
      (store (w\<lparr>store := AList.update p (AList.delete ''hash'' (dict_update old current)) (store w)\<rparr>)) p"
    using file_synced_no_hash by blast
  with e show "\<exists>c1 w1. update_file fs p c w = (Inr c1, w1) \<and> \<not> has_hash (store w1) p \<and>
          removed_hash_count c1 = removed_hash_count c + (if contains old ''hash'' then 1 else 0) \<and>
          changed_count c1 = changed_count c + (if agrees old current then 0 else 1)"
    by simp
qed

text \<open>
  A hashed file whose attributes are all unchanged: \<^verbatim>\<open>update\<close> reports zero changed
  entries and one removed hash, and the entry has no hash afterwards.
\<close>

theorem update_clears_hashes_of_live_files_witness:
  "update motd_fs [''/etc/motd''] [] hashed_world =
     (Inr True,
      \<lparr>store = [(''/etc/motd'', [(''type'', StrV ''f''), (''uid'', IntV 1000), (''gid'', IntV 1000),
                 (''mode'', StrV ''0o644''), (''size'', IntV 3)])],
       out = [AddedNew 0, UpdatedEntries 0, RemovedHashes 1, RemovedEntries 0], open_files = []\<rparr>) \<and>
   card {q \<in> set [''/etc/motd'']. has_hash (store hashed_world) q} = 1 \<and>
   (\<exists>c1 w1. update_file motd_fs ''/etc/motd''
        \<lparr>new_count = 0, changed_count = 0, removed_hash_count = 0, removed_entry_count = 0\<rparr>
        hashed_world = (Inr c1, w1) \<and>
      \<not> has_hash (store w1) ''/etc/motd'' \<and> removed_hash_count c1 = 1 \<and> changed_count c1 = 0)"
proof -
  let ?old = "[(''type'', StrV ''f''), (''uid'', IntV 1000), (''gid'', IntV 1000),
                 (''mode'', StrV ''0o644''), (''size'', IntV 3), (''hash'', StrV ''abc'')]"
  let ?cur = "[(''type'', StrV ''f''), (''uid'', IntV 1000), (''gid'', IntV 1000),
                 (''mode'', StrV ''0o644''), (''size'', IntV 3)]"
  let ?c = "\<lparr>new_count = 0, changed_count = 0, removed_hash_count = 0, removed_entry_count = 0\<rparr>"
  let ?w' = "\<lparr>store = [(''/etc/motd'', ?cur)],
       out = [AddedNew 0, UpdatedEntries 0, RemovedHashes 1, RemovedEntries 0], open_files = []\<rparr>"
  note t = update_clears_hashes_of_live_files [of motd_fs "[''/etc/motd'']" "[]" hashed_world ?w'
      "''/etc/motd''" ?old ?cur ?c]
  have h2: "map_of (store hashed_world) ''/etc/motd'' = Some ?old \<and> filedata motd_fs ''/etc/motd'' = Inr ?cur"
    by (simp add: hashed_world_def motd_filedata)
  from t hashed_world_update have
    "\<exists>a u r. out ?w' = out hashed_world @
          [AddedNew a, UpdatedEntries u,
           RemovedHashes (card {q \<in> set [''/etc/motd'']. has_hash (store hashed_world) q}),
           RemovedEntries r]"
    by blast
  then have c: "card {q \<in> set [''/etc/motd'']. has_hash (store hashed_world) q} = 1"
    by (simp add: hashed_world_def)
  from t h2 have "\<exists>c1 w1. update_file motd_fs ''/etc/motd'' ?c hashed_world = (Inr c1, w1) \<and>
      \<not> has_hash (store w1) ''/etc/motd'' \<and>
      removed_hash_count c1 = removed_hash_count ?c + (if contains ?old ''hash'' then 1 else 0) \<and>
      changed_count c1 = changed_count ?c + (if agrees ?old ?cur then 0 else 1)"
    by blast
  then have "\<exists>c1 w1. update_file motd_fs ''/etc/motd'' ?c hashed_world = (Inr c1, w1) \<and>
      \<not> has_hash (store w1) ''/etc/motd'' \<and> removed_hash_count c1 = 1 \<and> changed_count c1 = 0"
    by (simp add: contains_def agrees_def)
  with hashed_world_update c show ?thesis by blast
qed

text \<open>
  C6. If \<^verbatim>\<open>update\<close> has returned, running it again with the same live paths on the same
  file system returns \<^verbatim>\<open>True\<close>, prints zero new, changed, removed-hash and removed entries,
  and changes nothing else.
\<close>

theorem update_twice_reports_nothing:
  assumes "update fs files directories w = (Inr True, w1)"
  shows "update fs files directories w1 =
     (Inr True, w1\<lparr>out := out w1 @ [AddedNew 0, UpdatedEntries 0, RemovedHashes 0, RemovedEntries 0]\<rparr>)"
proof -
  from update_Inr [OF assms] obtain c3 w3 where
    r: "update_run fs files directories w = (Inr c3, w3)" and
    w1: "w1 = fold print (update_summary c3) w3"
    by blast
  note p = update_run_post [OF r]
  from p w1 have s: "\<forall>p\<in>set files. file_synced fs (store w1) p"
    "\<forall>p\<in>set directories. dir_synced fs (store w1) p"
    "set (map fst (store w1)) \<subseteq> set files \<union> set directories"
    by simp_all
  from update_run_synced [OF s] show ?thesis
    by (simp add: update_def update_summary_def fold_print_eq)
qed

text \<open>
  The second run after an \<^verbatim>\<open>update\<close> that changed one entry and removed one hash.
\<close>

theorem update_twice_reports_nothing_witness:
  "update motd_fs [''/etc/motd''] []
      \<lparr>store = [(''/etc/motd'', [(''type'', StrV ''f''), (''uid'', IntV 1000), (''gid'', IntV 1000),
                 (''mode'', StrV ''0o644''), (''size'', IntV 3)])],
       out = [AddedNew 0, UpdatedEntries 1, RemovedHashes 1, RemovedEntries 0], open_files = []\<rparr>
   = (Inr True,
      \<lparr>store = [(''/etc/motd'', [(''type'', StrV ''f''), (''uid'', IntV 1000), (''gid'', IntV 1000),
                 (''mode'', StrV ''0o644''), (''size'', IntV 3)])],
       out = [AddedNew 0, UpdatedEntries 1, RemovedHashes 1, RemovedEntries 0,
              AddedNew 0, UpdatedEntries 0, RemovedHashes 0, RemovedEntries 0], open_files = []\<rparr>)"
  using update_twice_reports_nothing [OF drifted_world_update] by simp

text \<open>
  C7. When \<^verbatim>\<open>verify\<close> processes a file path whose recorded entry has type \<^verbatim>\<open>f\<close>, the
  attribute-mismatch count grows by exactly one if at least one attribute differs and by
  nothing otherwise, however many attributes differ; every differing attribute gets its own
  line after a single warning line for the path. A differing hash adds one to the
  hash-changed count only, and \<^verbatim>\<open>hash\<close> is never among the attribute differences.
\<close>

theorem verify_file_counts_path_once:
  assumes "map_of (store w) fpath = Some recorded"
    and "map_of recorded ''type'' = Some (StrV ''f'')"
    and "filedata fs fpath = Inr current"
    and "verify_file hexdigest fs fpath c w = (Inr c', w')"
  shows "mismatch_count c' = mismatch_count c + (if field_changes recorded current = [] then 0 else 1) \<and>
         hash_changed_count c' =
           hash_changed_count c + (if hash_change hexdigest fs fpath recorded = [] then 0 else 1) \<and>
         out w' = out w
           @ (if field_changes recorded current = [] then []
              else WarnMismatch fpath # field_changes recorded current)
           @ hash_change hexdigest fs fpath recorded \<and>
         (\<forall>old cur. FieldChanged ''hash'' old cur \<notin> set (field_changes recorded current))"
proof -
  have nohash: "\<forall>old cur. FieldChanged ''hash'' old cur \<notin> set (field_changes recorded current)"
    using assms(3) by (auto simp: filedata_Inr dest!: field_changes_keys)
  show ?thesis
  proof (cases "map_of recorded ''hash''")
    case None
    with assms nohash show ?thesis
      by (auto simp: verify_file_def contains_def getitem_def compare_attrs_result hash_change_def)
  next
    case (Some old)
    with assms obtain x w2 where
      sh: "sha256file hexdigest fs fpath
             (w\<lparr>out := out w @ (if field_changes recorded current \<noteq> [] then [WarnMismatch fpath] else [])
                 @ field_changes recorded current\<rparr>) = (x, w2)"
      by (meson surj_pair)
    from assms Some sh obtain h where x: "x = Inr h"
      by (cases x) (auto simp: verify_file_def contains_def getitem_def compare_attrs_result)
    from sh x have w2: "w2 = w\<lparr>out := out w @ (if field_changes recorded current \<noteq> [] then [WarnMismatch fpath] else [])
                 @ field_changes recorded current\<rparr>"
      by (auto dest: sha256file_success)
    from sh x have dg: "file_digest hexdigest fs fpath = Inr h"
      by (auto dest: sha256file_digest)
    from assms Some sh x w2 dg nohash show ?thesis
      by (auto simp: verify_file_def contains_def getitem_def compare_attrs_result hash_change_def print_def)
  qed
qed

text \<open>
  A file whose owner, mode and content all differ from the record: one attribute mismatch
  with two field lines, and one hash change.
\<close>

theorem verify_file_counts_path_once_witness:
  "verify_file toy_hexdigest motd_fs ''/etc/motd''
     \<lparr>missing_count = 0, found_new_count = 0, mismatch_count = 0, hash_changed_count = 0\<rparr>
     drifted_world
   = (Inr \<lparr>missing_count = 0, found_new_count = 0, mismatch_count = 1, hash_changed_count = 1\<rparr>,
      drifted_world\<lparr>out :=
        [WarnMismatch ''/etc/motd'',
         FieldChanged ''uid'' (IntV 0) (IntV 1000),
         FieldChanged ''mode'' (StrV ''0o600'') (StrV ''0o644''),
         WarnHashChanged ''/etc/motd'',
         HashChangedFromTo (StrV ''xyz'') ''abc'']\<rparr>) \<and>
   (1::nat) = 0 + (if field_changes
        [(''type'', StrV ''f''), (''uid'', IntV 0), (''gid'', IntV 1000),
         (''mode'', StrV ''0o600''), (''size'', IntV 3), (''hash'', StrV ''xyz'')]
        [(''type'', StrV ''f''), (''uid'', IntV 1000), (''gid'', IntV 1000),
         (''mode'', StrV ''0o644''), (''size'', IntV 3)] = [] then 0 else 1)"
proof -
  let ?rec = "[(''type'', StrV ''f''), (''uid'', IntV 0), (''gid'', IntV 1000),
         (''mode'', StrV ''0o600''), (''size'', IntV 3), (''hash'', StrV ''xyz'')]"
  let ?c = "\<lparr>missing_count = 0, found_new_count = 0, mismatch_count = 0, hash_changed_count = 0\<rparr>"
  have h1: "map_of (store drifted_world) ''/etc/motd'' = Some ?rec"
    by (simp add: drifted_world_def)
  have h2: "map_of ?rec ''type'' = Some (StrV ''f'')"
    by simp
  have h4: "verify_file toy_hexdigest motd_fs ''/etc/motd'' ?c drifted_world
   = (Inr \<lparr>missing_count = 0, found_new_count = 0, mismatch_count = 1, hash_changed_count = 1\<rparr>,
      drifted_world\<lparr>out :=
        [WarnMismatch ''/etc/motd'',
         FieldChanged ''uid'' (IntV 0) (IntV 1000),
         FieldChanged ''mode'' (StrV ''0o600'') (StrV ''0o644''),
         WarnHashChanged ''/etc/motd'',
         HashChangedFromTo (StrV ''xyz'') ''abc'']\<rparr>)"
    by (simp add: verify_file_def contains_def getitem_def drifted_world_def motd_filedata
        print_def sha256file_digest_Inr [OF motd_digest])
  from verify_file_counts_path_once [OF h1 h2 motd_filedata h4] h4 show ?thesis
    by simp
qed

text \<open>
  C8 at a regular file with mode \<^verbatim>\<open>0o100644\<close>. The claim, like the database structure
  documented at the top of \<^verbatim>\<open>hids.py\<close> (\<^verbatim>\<open>"mode": 0o644\<close>, unquoted), has the permission bits
  stored as an integer, here 420. \<^verbatim>\<open>filedata\<close> stores the result of \<^verbatim>\<open>oct\<close>, the string
  \<^verbatim>\<open>0o644\<close>, and \<^verbatim>\<open>dirdata\<close> does the same.
\<close>

theorem stored_mode_is_not_an_integer:
  "(case filedata motd_fs ''/etc/motd'' of Inl e \<Rightarrow> None | Inr props \<Rightarrow> map_of props ''mode'')
     = Some (StrV ''0o644'') \<and>
   (case filedata motd_fs ''/etc/motd'' of Inl e \<Rightarrow> None | Inr props \<Rightarrow> map_of props ''mode'')
     \<noteq> Some (IntV 420)"
  by (simp add: motd_filedata)

text \<open>
  C9, as the code has it. \<^verbatim>\<open>sha256file\<close> closes the handle it opened when it completes:
  the open handles afterwards are those before the call. When \<^verbatim>\<open>open\<close> has succeeded and
  a \<^verbatim>\<open>read\<close> raises, the exception leaves the function before \<^verbatim>\<open>f.close()\<close>, and the
  handle is still open. (When the assertion or \<^verbatim>\<open>open\<close> itself fails, no handle was opened.)
\<close>

theorem sha256file_closes_only_on_completion:
  "open_files (snd (sha256file hexdigest fs fpath w)) =
     (case fst (sha256file hexdigest fs fpath w) of
        Inr h \<Rightarrow> open_files w
      | Inl e \<Rightarrow>
          (case fs fpath of
             None \<Rightarrow> open_files w
           | Some nd \<Rightarrow>
               if st_kind nd = RegularFile \<and> \<not> open_fails nd then fpath # open_files w
               else open_files w))"
  by (auto simp add: sha256file_def isfile_def Let_def
      split: option.splits sum.splits prod.splits)

text \<open>
  Hashing a readable file leaves no handle open.
\<close>

theorem sha256file_closes_only_on_completion_witness:
  "sha256file toy_hexdigest motd_fs ''/etc/motd'' empty_world = (Inr ''abc'', empty_world) \<and>
   open_files (snd (sha256file toy_hexdigest motd_fs ''/etc/motd'' empty_world)) = open_files empty_world"
proof -
  have r: "sha256file toy_hexdigest motd_fs ''/etc/motd'' empty_world = (Inr ''abc'', empty_world)"
    by (rule sha256file_digest_Inr [OF motd_digest])
  with sha256file_closes_only_on_completion [of toy_hexdigest motd_fs "''/etc/motd''" empty_world]
  show ?thesis by simp
qed

text \<open>
  The claim C9 as stated fails: the second \<^verbatim>\<open>read\<close> of a 20000-byte file raises, and the
  handle opened by \<^verbatim>\<open>sha256file\<close> is still open when the exception leaves it.
\<close>

theorem sha256file_read_error_leaves_handle_open:
  "sha256file toy_hexdigest (\<lambda>p. if p = ''/var/log/big'' then Some bad_disk_node else None)
     ''/var/log/big'' empty_world
   = (Inl IOError, empty_world\<lparr>open_files := [''/var/log/big'']\<rparr>)"
  by (simp add: sha256file_def isfile_def bad_disk_node_def file_node_def fread_def BUFSIZE_def
      sha256_loop_read_error Let_def empty_world_def)

text \<open>
  C10. \<^verbatim>\<open>cksum\<close> does not depend on its \<^verbatim>\<open>directories\<close> argument: any two directory lists
  give the same result and the same state.
\<close>

theorem cksum_ignores_directories:
  "cksum hexdigest fs files directories1 w = cksum hexdigest fs files directories2 w"
  by (simp add: cksum_def)

text \<open>
  An instance: the same file list with and without a directory.
\<close>

theorem cksum_ignores_directories_witness:
  "cksum toy_hexdigest etc_fs [''/etc/motd''] [''/etc''] unhashed_world
   = cksum toy_hexdigest etc_fs [''/etc/motd''] [] unhashed_world"
  by (rule cksum_ignores_directories)

end
